theory Spec2Isabelle
  imports Complex_Main
begin

section \<open>Conventions of the embedding\<close>

text \<open>
  The program is C++ (\<^verbatim>\<open>src/objects/water.cpp\<close>, \<^verbatim>\<open>src/kernel/kernel.cpp\<close>).
  \<^item> A C \<^verbatim>\<open>int\<close> is an \<^typ>\<open>int\<close>; integer division is C's (towards zero), written
    \<open>c_div\<close>; the conversions to \<^verbatim>\<open>unsigned int\<close>, \<^verbatim>\<open>size_t\<close> and
    \<^verbatim>\<open>unsigned char\<close> reduce modulo \<open>2 ^ 32\<close>, \<open>2 ^ 64\<close> and \<open>2 ^ 8\<close>.
  \<^item> A \<^verbatim>\<open>float\<close> or \<^verbatim>\<open>double\<close> is a \<^typ>\<open>real\<close>. Where the wave parameters
    are drawn (\<^verbatim>\<open>randFloat\<close> and the four \<^verbatim>\<open>push_back\<close> of the constructor) every
    conversion to \<^verbatim>\<open>float\<close> and every \<^verbatim>\<open>float\<close> operation rounds its exact result
    with \<open>to_float\<close>: to the nearest number with a significand of 24 bits, ties
    to the even one, as IEEE binary32 does. The exponent range is not bounded
    (no overflow to infinity, no subnormal numbers), and \<^verbatim>\<open>double\<close> arithmetic
    is exact. Everywhere else (the surface, the mesh, the textures) arithmetic
    is exact; the concrete evaluations there are chosen so that the decisive
    quantities are integers or are far from any rounding boundary.
  \<^item> A \<^verbatim>\<open>std::vector\<close> is a list, \<^verbatim>\<open>push_back\<close> appends at the end, and
    \<^verbatim>\<open>at\<close> is a checked read.
  \<^item> A member function takes the object and returns it updated; whatever can
    throw or has no defined result returns \<open>error + 'a\<close> (\<open>Inl\<close> the error).
  \<^item> A \<^verbatim>\<open>for (int i = lo; i < hi; i ++)\<close> loop is the recursive function
    \<open>for_loop\<close>.
\<close>

datatype error =
  OutOfRange              \<comment> \<open>\<^verbatim>\<open>std::out_of_range\<close> thrown by \<^verbatim>\<open>vector::at\<close>\<close>
  | NoReturnValue         \<comment> \<open>control flows off the end of a non-void function\<close>
  | ConversionOutOfRange  \<comment> \<open>floating value converted to an integer type that cannot hold it\<close>

datatype vec2 = Vec2 (v2x: real) (v2y: real)

datatype vec3 = Vec3 (v3x: real) (v3y: real) (v3z: real)

definition dot :: "vec2 \<Rightarrow> vec2 \<Rightarrow> real" where
  "dot a b = v2x a * v2x b + v2y a * v2y b"

definition c_div :: "int \<Rightarrow> int \<Rightarrow> int" where
  "c_div a b = (if (a < 0) = (b < 0) then \<bar>a\<bar> div \<bar>b\<bar> else - (\<bar>a\<bar> div \<bar>b\<bar>))"

definition to_unsigned_int :: "int \<Rightarrow> nat" where
  "to_unsigned_int v = nat (v mod 2 ^ 32)"

definition to_size_t :: "int \<Rightarrow> nat" where
  "to_size_t v = nat (v mod 2 ^ 64)"

definition int_to_unsigned_char :: "int \<Rightarrow> nat" where
  "int_to_unsigned_char v = nat (v mod 256)"

definition c_trunc :: "real \<Rightarrow> int" where
  "c_trunc r = (if 0 \<le> r then \<lfloor>r\<rfloor> else \<lceil>r\<rceil>)"

definition float_to_int :: "real \<Rightarrow> error + int" where
  "float_to_int r =
     (if - (2 ^ 31) \<le> c_trunc r \<and> c_trunc r < 2 ^ 31 then Inr (c_trunc r)
      else Inl ConversionOutOfRange)"

definition float_to_unsigned_char :: "real \<Rightarrow> error + nat" where
  "float_to_unsigned_char r =
     (if 0 \<le> c_trunc r \<and> c_trunc r \<le> 255 then Inr (nat (c_trunc r))
      else Inl ConversionOutOfRange)"

text \<open>
  Rounding to \<^verbatim>\<open>float\<close>. \<open>rne\<close> rounds to the nearest integer, a tie to the even
  one. A number \<open>x \<noteq> 0\<close> with \<open>2 ^ e \<le> |x| < 2 ^ (e + 1)\<close> is rounded to a multiple
  of \<open>2 ^ (e - 23)\<close>, which leaves a significand of 24 bits.
\<close>

definition rne :: "real \<Rightarrow> int" where
  "rne y =
     (let f = \<lfloor>y\<rfloor>; d = y - of_int f in
      if d < 1 / 2 then f else if 1 / 2 < d then f + 1 else if even f then f else f + 1)"

definition to_float :: "real \<Rightarrow> real" where
  "to_float x =
     (if x = 0 then 0
      else let u = 2 powr (of_int \<lfloor>log 2 \<bar>x\<bar>\<rfloor> - 23) in
           sgn x * (of_int (rne (\<bar>x\<bar> / u)) * u))"

definition vector_at :: "'a list \<Rightarrow> int \<Rightarrow> error + 'a" where
  "vector_at xs i = (if 0 \<le> i \<and> i < int (length xs) then Inr (xs ! nat i) else Inl OutOfRange)"

function for_loop :: "int \<Rightarrow> int \<Rightarrow> (int \<Rightarrow> 's \<Rightarrow> error + 's) \<Rightarrow> 's \<Rightarrow> error + 's" where
  "for_loop i n body s =
     (if i < n
      then (case body i s of Inl e \<Rightarrow> Inl e | Inr s' \<Rightarrow> for_loop (i + 1) n body s')
      else Inr s)"
  by pat_completeness auto
termination
  by (relation "measure (\<lambda>(i, n, body, s). nat (n - i))") auto

declare for_loop.simps [simp del]

section \<open>The random number generator\<close>

text \<open>
  \<^verbatim>\<open>rand()\<close> and \<^verbatim>\<open>RAND_MAX\<close> come from \<^verbatim>\<open>stdlib.h\<close>. The generator's state is
  the sequence of values the coming calls return; \<^verbatim>\<open>RAND_MAX\<close> is a parameter
  \<open>rmax\<close>. The C standard promises \<open>0 \<le> rand() \<le> RAND_MAX\<close> and
  \<open>RAND_MAX \<ge> 32767\<close>; \<open>rand_ok\<close> says so of a sequence.
\<close>

type_synonym rng = "nat \<Rightarrow> int"

definition rand :: "rng \<Rightarrow> int \<times> rng" where
  "rand g = (g 0, \<lambda>n. g (Suc n))"

definition rand_ok :: "int \<Rightarrow> rng \<Rightarrow> bool" where
  "rand_ok rmax g = (0 < rmax \<and> (\<forall>n. 0 \<le> g n \<and> g n \<le> rmax))"

definition rng_const :: "int \<Rightarrow> rng" where
  "rng_const r = (\<lambda>n. r)"

text \<open>
  \<^verbatim>\<open>float randFloat(float x) { return (float)rand() / ((float)RAND_MAX / x); }\<close>
  The argument is a \<^verbatim>\<open>float\<close>, the two casts and the two divisions each round.
  For \<open>x = 0\<close> the inner quotient is infinite in C and the result is 0; it is 0
  here too, since division by 0 is 0 in HOL.
\<close>

definition randFloat :: "int \<Rightarrow> real \<Rightarrow> rng \<Rightarrow> real \<times> rng" where
  "randFloat rmax x g =
     (case rand g of (r, g') \<Rightarrow>
        (to_float (to_float (real_of_int r) / to_float (to_float (real_of_int rmax) / to_float x)), g'))"

section \<open>The class Water\<close>

definition MAXFREQ :: real where
  "MAXFREQ = 1"

definition MAXSPED :: real where
  "MAXSPED = 5 / 1000"

text \<open>
  The members of \<^verbatim>\<open>class Water\<close>. The OpenGL handles \<^verbatim>\<open>VBO\<close> and \<^verbatim>\<open>EBO\<close> are
  represented by the contents of the buffer objects they name: \<open>None\<close> when no
  data store has been created.
\<close>

record water =
  vertices :: "real list"
  indices :: "nat list"
  internalTime :: real
  VBO_data :: "real list option"
  EBO_data :: "nat list option"
  pX :: int
  pZ :: int
  pW :: int
  pL :: int
  pDimX :: int
  pDimZ :: int
  maxA :: real
  maxI :: int
  directional :: bool
  rounded :: bool
  animated :: bool
  Ai :: "real list"
  wi :: "real list"
  Di :: "vec2 list"
  Si :: "real list"

subsection \<open>Wave equations\<close>

definition W :: "water \<Rightarrow> int \<Rightarrow> real \<Rightarrow> real \<Rightarrow> real \<Rightarrow> error + real" where
  "W w i x y t =
     (case vector_at (Ai w) i of Inl e \<Rightarrow> Inl e | Inr a \<Rightarrow>
     (case vector_at (wi w) i of Inl e \<Rightarrow> Inl e | Inr om \<Rightarrow>
     (case vector_at (Di w) i of Inl e \<Rightarrow> Inl e | Inr d \<Rightarrow>
     (case vector_at (Si w) i of Inl e \<Rightarrow> Inl e | Inr sp \<Rightarrow>
        (if directional w \<and> rounded w
         then Inr (a * sin (dot d (Vec2 x y) * om + sp * om * t))
         else Inl NoReturnValue)))))"

definition H :: "water \<Rightarrow> real \<Rightarrow> real \<Rightarrow> real \<Rightarrow> error + real" where
  "H w x y t =
     for_loop 0 (maxI w)
       (\<lambda>i summ. case W w i x y t of Inl e \<Rightarrow> Inl e | Inr v \<Rightarrow> Inr (summ + v)) 0"

definition ddxW :: "water \<Rightarrow> int \<Rightarrow> real \<Rightarrow> real \<Rightarrow> real \<Rightarrow> error + real" where
  "ddxW w i x y t =
     (case vector_at (Ai w) i of Inl e \<Rightarrow> Inl e | Inr a \<Rightarrow>
     (case vector_at (wi w) i of Inl e \<Rightarrow> Inl e | Inr om \<Rightarrow>
     (case vector_at (Di w) i of Inl e \<Rightarrow> Inl e | Inr d \<Rightarrow>
     (case vector_at (Si w) i of Inl e \<Rightarrow> Inl e | Inr sp \<Rightarrow>
        (if directional w \<and> rounded w
         then Inr (om * v2x d * a * cos (dot d (Vec2 x y) * om + sp * om * t))
         else Inl NoReturnValue)))))"

definition ddxH :: "water \<Rightarrow> real \<Rightarrow> real \<Rightarrow> real \<Rightarrow> error + real" where
  "ddxH w x y t =
     for_loop 0 (maxI w)
       (\<lambda>i summ. case ddxW w i x y t of Inl e \<Rightarrow> Inl e | Inr v \<Rightarrow> Inr (summ + v)) 0"

definition ddyW :: "water \<Rightarrow> int \<Rightarrow> real \<Rightarrow> real \<Rightarrow> real \<Rightarrow> error + real" where
  "ddyW w i x y t =
     (case vector_at (Ai w) i of Inl e \<Rightarrow> Inl e | Inr a \<Rightarrow>
     (case vector_at (wi w) i of Inl e \<Rightarrow> Inl e | Inr om \<Rightarrow>
     (case vector_at (Di w) i of Inl e \<Rightarrow> Inl e | Inr d \<Rightarrow>
     (case vector_at (Si w) i of Inl e \<Rightarrow> Inl e | Inr sp \<Rightarrow>
        (if directional w \<and> rounded w
         then Inr (om * v2y d * a * cos (dot d (Vec2 x y) * om + sp * om * t))
         else Inl NoReturnValue)))))"

definition ddyH :: "water \<Rightarrow> real \<Rightarrow> real \<Rightarrow> real \<Rightarrow> error + real" where
  "ddyH w x y t =
     for_loop 0 (maxI w)
       (\<lambda>i summ. case ddyW w i x y t of Inl e \<Rightarrow> Inl e | Inr v \<Rightarrow> Inr (summ + v)) 0"

definition N :: "water \<Rightarrow> real \<Rightarrow> real \<Rightarrow> real \<Rightarrow> error + vec3" where
  "N w x y t =
     (case ddxH w x y t of Inl e \<Rightarrow> Inl e | Inr hx \<Rightarrow>
     (case ddyH w x y t of Inl e \<Rightarrow> Inl e | Inr hy \<Rightarrow>
        Inr (Vec3 (0 - hx) (0 - hy) 1)))"

subsection \<open>The clock\<close>

definition updateTime :: "water \<Rightarrow> real \<Rightarrow> water" where
  "updateTime w dT = w\<lparr>internalTime := internalTime w + dT\<rparr>"

subsection \<open>The mesh\<close>

text \<open>
  The body of the two vertex loops, the same text in \<^verbatim>\<open>setupMesh\<close> and in
  \<^verbatim>\<open>updateMesh\<close>. In \<^verbatim>\<open>pX - pW / 2 + (float)i * pW / pDimX\<close> the operands
  \<^verbatim>\<open>pX\<close>, \<^verbatim>\<open>pW\<close> and \<^verbatim>\<open>2\<close> are \<^verbatim>\<open>int\<close>, so \<^verbatim>\<open>pW / 2\<close> is an integer
  division; only the second summand is computed in \<^verbatim>\<open>float\<close>.
\<close>

definition sample_x :: "water \<Rightarrow> int \<Rightarrow> real" where
  "sample_x w i =
     real_of_int (pX w - c_div (pW w) 2) + real_of_int i * real_of_int (pW w) / real_of_int (pDimX w)"

definition sample_z :: "water \<Rightarrow> int \<Rightarrow> real" where
  "sample_z w j =
     real_of_int (pZ w - c_div (pL w) 2) + real_of_int j * real_of_int (pL w) / real_of_int (pDimZ w)"

definition push_vertex :: "int \<Rightarrow> int \<Rightarrow> water \<Rightarrow> error + water" where
  "push_vertex i j w =
     (let x = sample_x w i; z = sample_z w j in
      case H w x z (internalTime w) of Inl e \<Rightarrow> Inl e | Inr y \<Rightarrow>
     (case N w x z (internalTime w) of Inl e \<Rightarrow> Inl e | Inr normal \<Rightarrow>
        Inr (w\<lparr>vertices := vertices w @ [x, y, z, v3x normal, v3y normal, v3z normal]\<rparr>)))"

definition vertex_loops :: "water \<Rightarrow> error + water" where
  "vertex_loops w =
     for_loop 0 (pDimX w) (\<lambda>i. for_loop 0 (pDimZ w) (\<lambda>j. push_vertex i j)) w"

definition push_index :: "int \<Rightarrow> int \<Rightarrow> int \<Rightarrow> water \<Rightarrow> error + water" where
  "push_index i j k w =
     Inr (w\<lparr>indices := indices w @ [to_unsigned_int (j + pDimX w * (i + k))]\<rparr>)"

definition index_loops :: "water \<Rightarrow> error + water" where
  "index_loops w =
     for_loop 0 (pDimZ w - 1) (\<lambda>i. for_loop 0 (pDimX w) (\<lambda>j. for_loop 0 2 (\<lambda>k. push_index i j k))) w"

text \<open>
  \<^verbatim>\<open>glBufferData\<close> creates the data store of the bound buffer from a copy of the
  vector; \<^verbatim>\<open>glBufferSubData\<close> overwrites a prefix of an existing store and
  changes nothing when there is no store or the data do not fit.
\<close>

definition glBufferSubData :: "'a list option \<Rightarrow> 'a list \<Rightarrow> 'a list option" where
  "glBufferSubData store xs =
     (case store of
        None \<Rightarrow> None
      | Some old \<Rightarrow> if length xs \<le> length old then Some (xs @ drop (length xs) old) else Some old)"

definition setupMesh :: "water \<Rightarrow> error + water" where
  "setupMesh w =
     (case vertex_loops w of Inl e \<Rightarrow> Inl e | Inr w1 \<Rightarrow>
     (case index_loops w1 of Inl e \<Rightarrow> Inl e | Inr w2 \<Rightarrow>
        Inr (w2\<lparr>VBO_data := Some (vertices w2), EBO_data := Some (indices w2)\<rparr>)))"

definition updateMesh :: "water \<Rightarrow> error + water" where
  "updateMesh w =
     (case vertex_loops (w\<lparr>vertices := [], indices := []\<rparr>) of Inl e \<Rightarrow> Inl e | Inr w1 \<Rightarrow>
        Inr (w1\<lparr>VBO_data := glBufferSubData (VBO_data w1) (vertices w1)\<rparr>))"

subsection \<open>Drawing\<close>

text \<open>
  One \<^verbatim>\<open>glDrawElements(GL_TRIANGLE_STRIP, count, GL_UNSIGNED_INT, offset)\<close> call:
  the number of indices it reads and the byte offset into the element buffer
  at which it starts. An index is an \<^verbatim>\<open>unsigned int\<close> of four bytes.
\<close>

record draw_call =
  count :: int
  byte_offset :: nat

definition sizeof_unsigned_int :: int where
  "sizeof_unsigned_int = 4"

definition draw :: "water \<Rightarrow> error + draw_call list" where
  "draw w =
     for_loop 0 (pDimZ w - 1)
       (\<lambda>i calls. Inr (calls @
          [\<lparr>count = pDimX w, byte_offset = to_size_t (sizeof_unsigned_int * pDimX w * i)\<rparr>]))
       []"

text \<open>The positions of the index buffer a call reads: first position and one past the last.\<close>

definition index_range :: "draw_call \<Rightarrow> nat \<times> nat" where
  "index_range c =
     (byte_offset c div nat sizeof_unsigned_int,
      byte_offset c div nat sizeof_unsigned_int + nat (count c))"

subsection \<open>Construction\<close>

text \<open>
  The members that the constructor's initialiser list does not mention start as
  empty vectors; \<^verbatim>\<open>internalTime\<close> starts with whatever the memory holds, the
  parameter \<open>junk\<close>. The arguments of \<^verbatim>\<open>glm::vec2(..., ...)\<close> are evaluated here
  from left to right (C++ leaves their order open). The expressions with the
  \<^verbatim>\<open>double\<close> literal \<^verbatim>\<open>0.5\<close> are computed in \<^verbatim>\<open>double\<close> and rounded when they are
  stored in a \<^verbatim>\<open>vector<float>\<close>; \<^verbatim>\<open>randFloat(1.0f)*2-1\<close> is \<^verbatim>\<open>float\<close> arithmetic.
\<close>

definition push_wave :: "int \<Rightarrow> int \<Rightarrow> water \<times> rng \<Rightarrow> error + water \<times> rng" where
  "push_wave rmax i st =
     (case st of (w, g0) \<Rightarrow>
      case randFloat rmax (maxA w) g0 of (a, g1) \<Rightarrow>
      case randFloat rmax MAXFREQ g1 of (f, g2) \<Rightarrow>
      case randFloat rmax 1 g2 of (d1, g3) \<Rightarrow>
      case randFloat rmax 1 g3 of (d2, g4) \<Rightarrow>
      case randFloat rmax MAXSPED g4 of (sp, g5) \<Rightarrow>
        Inr (w\<lparr>Ai := Ai w @ [a],
                wi := wi w @ [to_float (f * 0.5 + MAXFREQ * 0.5)],
                Di := Di w @ [Vec2 (to_float (to_float (d1 * 2) - 1)) (to_float (to_float (d2 * 2) - 1))],
                Si := Si w @ [to_float (sp * 0.5 + MAXFREQ * 0.5)]\<rparr>, g5))"

definition Water_init ::
  "real \<Rightarrow> int \<Rightarrow> int \<Rightarrow> int \<Rightarrow> int \<Rightarrow> int \<Rightarrow> int \<Rightarrow> real \<Rightarrow> int \<Rightarrow> bool \<Rightarrow> bool \<Rightarrow> bool \<Rightarrow> water" where
  "Water_init junk px pz pw pl pdimx pdimz maxa maxi dir rnd anim =
     \<lparr>vertices = [], indices = [], internalTime = junk, VBO_data = None, EBO_data = None,
      pX = px, pZ = pz, pW = pw, pL = pl, pDimX = pdimx, pDimZ = pdimz,
      maxA = maxa, maxI = maxi, directional = dir, rounded = rnd, animated = anim,
      Ai = [], wi = [], Di = [], Si = []\<rparr>"

definition Water_ctor ::
  "int \<Rightarrow> rng \<Rightarrow> real \<Rightarrow> int \<Rightarrow> int \<Rightarrow> int \<Rightarrow> int \<Rightarrow> int \<Rightarrow> int \<Rightarrow> real \<Rightarrow> int \<Rightarrow> bool \<Rightarrow> bool \<Rightarrow> bool
     \<Rightarrow> error + water" where
  "Water_ctor rmax g junk px pz pw pl pdimx pdimz maxa maxi dir rnd anim =
     (let w0 = Water_init junk px pz pw pl pdimx pdimz maxa maxi dir rnd anim in
      if dir \<and> rnd
      then (case for_loop 0 maxi (push_wave rmax) (w0, g) of
              Inl e \<Rightarrow> Inl e
            | Inr (w1, g') \<Rightarrow> setupMesh (w1\<lparr>internalTime := 0\<rparr>))
      else Inr w0)"

section \<open>Kernel::start: the water object and the two textures\<close>

text \<open>
  \<^verbatim>\<open>Kernel::start\<close> fixes \<^verbatim>\<open>pX = 0; pZ = 0; pW = 50; pL = 50; pdimX = 500; pdimZ = 500\<close>
  and builds the water with \<^verbatim>\<open>new Water(pX, pZ, pW, pL, pdimX, pdimZ, 0.1f, 20, true, true, false)\<close>.
  The two texture loops are given here for any values of these locals; the
  definitions \<open>Kernel_\<dots>\<close> instantiate them as the program does. An array made by
  \<^verbatim>\<open>new unsigned char[n]\<close> starts with indeterminate bytes, the parameter \<open>raw\<close>
  (a list of length \<open>n\<close>); every store of the loops lies inside the array.
\<close>

definition Kernel_water :: "int \<Rightarrow> rng \<Rightarrow> real \<Rightarrow> error + water" where
  "Kernel_water rmax g junk = Water_ctor rmax g junk 0 0 50 50 500 500 (1 / 10) 20 True True False"

text \<open>\<^verbatim>\<open>(unsigned char)((normal.x / 2 + 0.5) * 256)\<close>, a conversion from \<^verbatim>\<open>double\<close>.\<close>

definition encode_component :: "real \<Rightarrow> error + nat" where
  "encode_component c = float_to_unsigned_char ((c / 2 + 0.5) * 256)"

definition store_normal ::
  "water \<Rightarrow> int \<Rightarrow> int \<Rightarrow> int \<Rightarrow> int \<Rightarrow> int \<Rightarrow> int \<Rightarrow> int \<Rightarrow> int \<Rightarrow> nat list \<Rightarrow> error + nat list" where
  "store_normal wtr px pz pw pl pdimX pdimZ i j data =
     (let x = real_of_int (px - c_div pw 2) + real_of_int i * real_of_int pw / real_of_int pdimX;
          z = real_of_int (pz - c_div pl 2) + real_of_int j * real_of_int pl / real_of_int pdimZ in
      case N wtr x z 0 of Inl e \<Rightarrow> Inl e | Inr normal \<Rightarrow>
     (case encode_component (v3x normal) of Inl e \<Rightarrow> Inl e | Inr b0 \<Rightarrow>
     (case encode_component (v3y normal) of Inl e \<Rightarrow> Inl e | Inr b1 \<Rightarrow>
     (case encode_component (v3z normal) of Inl e \<Rightarrow> Inl e | Inr b2 \<Rightarrow>
        Inr (data[nat (i * pdimZ * 3 + j * 3 + 0) := b0,
                  nat (i * pdimZ * 3 + j * 3 + 1) := b1,
                  nat (i * pdimZ * 3 + j * 3 + 2) := b2])))))"

definition normal_loops ::
  "water \<Rightarrow> int \<Rightarrow> int \<Rightarrow> int \<Rightarrow> int \<Rightarrow> int \<Rightarrow> int \<Rightarrow> nat list \<Rightarrow> error + nat list" where
  "normal_loops wtr px pz pw pl pdimX pdimZ raw =
     for_loop 0 pdimX (\<lambda>i. for_loop 0 pdimZ (\<lambda>j. store_normal wtr px pz pw pl pdimX pdimZ i j)) raw"

definition Kernel_data :: "water \<Rightarrow> nat list \<Rightarrow> error + nat list" where
  "Kernel_data wtr raw = normal_loops wtr 0 0 50 50 500 500 raw"

text \<open>
  The value \<^verbatim>\<open>val\<close> of texel \<open>(i, j)\<close> of the refraction texture:
  \<^verbatim>\<open>int val = (1 - distance > 0) ? (int)((1.0f - 2*distance)*256) : 0;\<close>
\<close>

definition refract_val :: "int \<Rightarrow> int \<Rightarrow> int \<Rightarrow> int \<Rightarrow> error + int" where
  "refract_val pdimX pdimZ i j =
     (let centerX = c_div pdimX 2;
          centerY = c_div pdimZ 2;
          distX = real_of_int \<bar>centerX - i\<bar> / real_of_int pdimX * 2;
          distY = real_of_int \<bar>centerY - j\<bar> / real_of_int pdimZ * 2;
          distance = sqrt (distX * distX + distY * distY) in
      if 1 - distance > 0 then float_to_int ((1 - 2 * distance) * 256) else Inr 0)"

definition store_refract :: "int \<Rightarrow> int \<Rightarrow> int \<Rightarrow> int \<Rightarrow> nat list \<Rightarrow> error + nat list" where
  "store_refract pdimX pdimZ i j refract =
     (case refract_val pdimX pdimZ i j of Inl e \<Rightarrow> Inl e | Inr val \<Rightarrow>
        Inr (refract[nat (i * pdimZ * 3 + j * 3 + 0) := int_to_unsigned_char val,
                     nat (i * pdimZ * 3 + j * 3 + 1) := int_to_unsigned_char val,
                     nat (i * pdimZ * 3 + j * 3 + 2) := int_to_unsigned_char val]))"

definition refract_loops :: "int \<Rightarrow> int \<Rightarrow> nat list \<Rightarrow> error + nat list" where
  "refract_loops pdimX pdimZ raw =
     for_loop 0 pdimX (\<lambda>i. for_loop 0 pdimZ (\<lambda>j. store_refract pdimX pdimZ i j)) raw"

definition Kernel_refract :: "nat list \<Rightarrow> error + nat list" where
  "Kernel_refract raw = refract_loops 500 500 raw"

section \<open>Predicates used in the proofs\<close>

text \<open>
  \<open>waves_ok\<close>: the mode is (directional, rounded) and each of the four
  parallel vectors holds at least \<open>maxI\<close> entries, so that every \<^verbatim>\<open>at(i)\<close> of
  the wave equations is in range. \<open>no_waves\<close> forgets the wave set, and
  \<open>waves_in_range\<close> bounds every entry of it.
\<close>

definition waves_ok :: "water \<Rightarrow> bool" where
  "waves_ok w =
     (directional w \<and> rounded w \<and> maxI w \<le> int (length (Ai w)) \<and> maxI w \<le> int (length (wi w)) \<and>
      maxI w \<le> int (length (Di w)) \<and> maxI w \<le> int (length (Si w)))"

definition no_waves :: "water \<Rightarrow> water" where
  "no_waves w = w\<lparr>Ai := [], wi := [], Di := [], Si := []\<rparr>"

definition waves_in_range :: "water \<Rightarrow> bool" where
  "waves_in_range w =
     (list_all (\<lambda>a. 0 \<le> maxA w \<longrightarrow> 0 \<le> a \<and> a \<le> maxA w * (1 + 1 / 2 ^ 22)) (Ai w) \<and>
      list_all (\<lambda>f. MAXFREQ / 2 \<le> f \<and> f \<le> MAXFREQ) (wi w) \<and>
      list_all (\<lambda>d. - 1 \<le> v2x d \<and> v2x d \<le> 1 \<and> - 1 \<le> v2y d \<and> v2y d \<le> 1) (Di w) \<and>
      list_all (\<lambda>s. MAXFREQ / 2 \<le> s \<and> s \<le> MAXFREQ / 2 + MAXSPED / 2) (Si w))"

text \<open>What the constructor establishes in the supported mode.\<close>

definition constructed ::
  "int \<Rightarrow> int \<Rightarrow> int \<Rightarrow> int \<Rightarrow> int \<Rightarrow> int \<Rightarrow> real \<Rightarrow> int \<Rightarrow> bool \<Rightarrow> water \<Rightarrow> bool" where
  "constructed px pz pw pl pdimx pdimz maxa maxi anim w =
     (pX w = px \<and> pZ w = pz \<and> pW w = pw \<and> pL w = pl \<and> pDimX w = pdimx \<and> pDimZ w = pdimz \<and>
      maxA w = maxa \<and> maxI w = maxi \<and> directional w \<and> rounded w \<and> animated w = anim \<and>
      internalTime w = 0 \<and>
      length (Ai w) = nat maxi \<and> length (wi w) = nat maxi \<and>
      length (Di w) = nat maxi \<and> length (Si w) = nat maxi \<and>
      length (vertices w) = 6 * nat pdimx * nat pdimz \<and>
      list_all (\<lambda>x. x < nat (pdimx * pdimz)) (indices w) \<and>
      VBO_data w = Some (vertices w) \<and> EBO_data w = Some (indices w))"

text \<open>
  The six floats that \<open>push_vertex\<close> appends for the sample \<open>(i, j)\<close> when \<open>H\<close>
  and \<open>N\<close> return.
\<close>

definition vertex_data :: "water \<Rightarrow> int \<Rightarrow> int \<Rightarrow> real list" where
  "vertex_data w i j =
     (let x = sample_x w i; z = sample_z w j;
          y = projr (H w x z (internalTime w));
          normal = projr (N w x z (internalTime w))
      in [x, y, z, v3x normal, v3y normal, v3z normal])"

text \<open>
  The states an object \<open>w0\<close> can reach after construction, by any sequence of
  \<^verbatim>\<open>updateTime\<close> and (returning) \<^verbatim>\<open>updateMesh\<close> calls.
\<close>

inductive reachable :: "water \<Rightarrow> water \<Rightarrow> bool" for w0 :: water where
  reach_start: "reachable w0 w0"
| reach_time: "reachable w0 w \<Longrightarrow> reachable w0 (updateTime w dT)"
| reach_mesh: "reachable w0 w \<Longrightarrow> updateMesh w = Inr w' \<Longrightarrow> reachable w0 w'"

text \<open>
  A small object for concrete evaluations: what the constructor returns for a
  patch of 50 by 50 sampled on a 2 by 2 grid with one wave, when every call of
  \<^verbatim>\<open>rand()\<close> returns 0 and \<^verbatim>\<open>RAND_MAX\<close> is 32767.
\<close>

definition example_water :: water where
  "example_water =
     \<lparr>vertices = [- 25, 0, - 25, 0, 0, 1, - 25, 0, 0, 0, 0, 1, 0, 0, - 25, 0, 0, 1, 0, 0, 0, 0, 0, 1],
      indices = [0, 2, 1, 3], internalTime = 0,
      VBO_data = Some [- 25, 0, - 25, 0, 0, 1, - 25, 0, 0, 0, 0, 1, 0, 0, - 25, 0, 0, 1, 0, 0, 0, 0, 0, 1],
      EBO_data = Some [0, 2, 1, 3],
      pX = 0, pZ = 0, pW = 50, pL = 50, pDimX = 2, pDimZ = 2, maxA = 1 / 10, maxI = 1,
      directional = True, rounded = True, animated = False,
      Ai = [0], wi = [1 / 2], Di = [Vec2 (- 1) (- 1)], Si = [1 / 2]\<rparr>"

section \<open>Loops\<close>

lemma for_loop_done: "n \<le> i \<Longrightarrow> for_loop i n body s = Inr s"
  by (simp add: for_loop.simps)

lemma for_loop_step:
  "i < n \<Longrightarrow> for_loop i n body s =
     (case body i s of Inl e \<Rightarrow> Inl e | Inr s' \<Rightarrow> for_loop (i + 1) n body s')"
  by (subst for_loop.simps) simp


lemma for_loop_fail:
  "i < n \<Longrightarrow> body i s = Inl e \<Longrightarrow> for_loop i n body s = Inl e"
  by (simp add: for_loop_step)

lemma for_loop_rule:
  assumes "P lo s"
    and "\<And>k s. lo \<le> k \<Longrightarrow> k < hi \<Longrightarrow> P k s \<Longrightarrow> \<exists>s'. body k s = Inr s' \<and> P (k + 1) s'"
  shows "\<exists>s'. for_loop lo hi body s = Inr s' \<and> P (max lo hi) s'"
  using assms
proof (induction lo hi body s rule: for_loop.induct)
  case (1 i n body s)
  show ?case
  proof (cases "i < n")
    case False
    with 1(2) show ?thesis by (simp add: for_loop_done max_def)
  next
    case True
    from 1(3)[OF _ True 1(2)] obtain s1 where s1: "body i s = Inr s1" "P (i + 1) s1" by auto
    have "\<exists>s'. for_loop (i + 1) n body s1 = Inr s' \<and> P (max (i + 1) n) s'"
    proof (rule 1(1)[OF True s1(1) s1(2)])
      fix k s assume "i + 1 \<le> k" "k < n" "P k s"
      then show "\<exists>s'. body k s = Inr s' \<and> P (k + 1) s'" using 1(3)[of k s] by simp
    qed
    then show ?thesis using True s1 by (simp add: for_loop_step max_def)
  qed
qed

section \<open>The wave equations and the mesh loops return\<close>

lemma nat_max_0: "nat (max 0 n) = nat n"
  by (simp add: max_def)

lemma W_ok:
  assumes "waves_ok w" "0 \<le> i" "i < maxI w"
  shows "\<exists>v. W w i x y t = Inr v" and "\<exists>v. ddxW w i x y t = Inr v" and "\<exists>v. ddyW w i x y t = Inr v"
  using assms by (simp_all add: waves_ok_def W_def ddxW_def ddyW_def vector_at_def)

lemma sum_loop_ok:
  assumes "\<And>i. 0 \<le> i \<Longrightarrow> i < n \<Longrightarrow> \<exists>v. f i = Inr v"
  shows "\<exists>r. for_loop 0 n (\<lambda>i summ. case f i of Inl e \<Rightarrow> Inl e | Inr v \<Rightarrow> Inr (summ + v)) (s::real) = Inr r"
proof -
  have "\<exists>s'. for_loop 0 n (\<lambda>i summ. case f i of Inl e \<Rightarrow> Inl e | Inr v \<Rightarrow> Inr (summ + v)) s = Inr s' \<and> True"
  proof (rule for_loop_rule[where P = "\<lambda>_ _. True"])
    fix k and s :: real
    assume "0 \<le> k" "k < n"
    then obtain v where "f k = Inr v" using assms by blast
    then show "\<exists>s'. (case f k of Inl e \<Rightarrow> Inl e | Inr v \<Rightarrow> Inr (s + v)) = Inr s' \<and> True" by simp
  qed simp
  then show ?thesis by simp
qed

lemma H_ok: "waves_ok w \<Longrightarrow> \<exists>v. H w x y t = Inr v"
  unfolding H_def by (rule sum_loop_ok) (rule W_ok)

lemma ddxH_ok: "waves_ok w \<Longrightarrow> \<exists>v. ddxH w x y t = Inr v"
  unfolding ddxH_def by (rule sum_loop_ok) (rule W_ok)

lemma ddyH_ok: "waves_ok w \<Longrightarrow> \<exists>v. ddyH w x y t = Inr v"
  unfolding ddyH_def by (rule sum_loop_ok) (rule W_ok)

lemma N_ok:
  assumes "waves_ok w"
  shows "\<exists>hx hy. N w x y t = Inr (Vec3 hx hy 1)"
proof -
  obtain hx where "ddxH w x y t = Inr hx" using ddxH_ok[OF assms] by blast
  moreover obtain hy where "ddyH w x y t = Inr hy" using ddyH_ok[OF assms] by blast
  ultimately show ?thesis by (simp add: N_def)
qed

subsection \<open>Vertex loops\<close>

lemma waves_ok_vertices [simp]: "waves_ok (w\<lparr>vertices := vs\<rparr>) = waves_ok w"
  by (simp add: waves_ok_def)

lemma push_vertex_ok:
  assumes "waves_ok w"
  shows "\<exists>v. length v = 6 \<and> push_vertex i j (w\<lparr>vertices := vs\<rparr>) = Inr (w\<lparr>vertices := vs @ v\<rparr>)"
proof -
  let ?w = "w\<lparr>vertices := vs\<rparr>"
  have ok: "waves_ok ?w" using assms by simp
  obtain y where y: "H ?w (sample_x ?w i) (sample_z ?w j) (internalTime ?w) = Inr y"
    using H_ok[OF ok] by blast
  obtain hx hy where n: "N ?w (sample_x ?w i) (sample_z ?w j) (internalTime ?w) = Inr (Vec3 hx hy 1)"
    using N_ok[OF ok] by blast
  have "push_vertex i j ?w =
      Inr (w\<lparr>vertices := vs @ [sample_x ?w i, y, sample_z ?w j, hx, hy, 1]\<rparr>)"
    unfolding push_vertex_def Let_def y n by simp
  then show ?thesis
    by (intro exI[of _ "[sample_x ?w i, y, sample_z ?w j, hx, hy, 1]"]) simp
qed

lemma vertex_row_ok:
  assumes "waves_ok w"
  shows "\<exists>v. length v = 6 * nat nz \<and>
           for_loop 0 nz (\<lambda>j. push_vertex i j) (w\<lparr>vertices := vs\<rparr>) = Inr (w\<lparr>vertices := vs @ v\<rparr>)"
proof -
  let ?P = "\<lambda>k s. \<exists>v. length v = 6 * nat k \<and> s = w\<lparr>vertices := vs @ v\<rparr>"
  have "\<exists>s'. for_loop 0 nz (\<lambda>j. push_vertex i j) (w\<lparr>vertices := vs\<rparr>) = Inr s' \<and> ?P (max 0 nz) s'"
  proof (rule for_loop_rule[where P = ?P])
    show "?P 0 (w\<lparr>vertices := vs\<rparr>)" by simp
  next
    fix k s assume k: "0 \<le> k" "k < nz" and "?P k s"
    then obtain v where v: "length v = 6 * nat k" "s = w\<lparr>vertices := vs @ v\<rparr>" by blast
    obtain u where u: "length u = 6" "push_vertex i k (w\<lparr>vertices := vs @ v\<rparr>) = Inr (w\<lparr>vertices := (vs @ v) @ u\<rparr>)"
      using push_vertex_ok[OF assms] by blast
    have "length (v @ u) = 6 * nat (k + 1)" using v(1) u(1) k(1) by (simp add: nat_add_distrib)
    then show "\<exists>s'. push_vertex i k s = Inr s' \<and> ?P (k + 1) s'"
      using v(2) u(2)
      by (intro exI[of _ "w\<lparr>vertices := vs @ v @ u\<rparr>"] conjI exI[of _ "v @ u"]) simp_all
  qed
  then obtain v where "length v = 6 * nat nz"
    "for_loop 0 nz (\<lambda>j. push_vertex i j) (w\<lparr>vertices := vs\<rparr>) = Inr (w\<lparr>vertices := vs @ v\<rparr>)"
    by (auto simp: nat_max_0)
  then show ?thesis by blast
qed

lemma vertex_loops_ok:
  assumes "waves_ok w"
  shows "\<exists>v. length v = 6 * nat (pDimX w) * nat (pDimZ w) \<and>
           vertex_loops (w\<lparr>vertices := vs\<rparr>) = Inr (w\<lparr>vertices := vs @ v\<rparr>)"
proof -
  let ?P = "\<lambda>k s. \<exists>v. length v = 6 * nat k * nat (pDimZ w) \<and> s = w\<lparr>vertices := vs @ v\<rparr>"
  let ?body = "\<lambda>i. for_loop 0 (pDimZ w) (\<lambda>j. push_vertex i j)"
  have "\<exists>s'. for_loop 0 (pDimX w) ?body (w\<lparr>vertices := vs\<rparr>) = Inr s' \<and> ?P (max 0 (pDimX w)) s'"
  proof (rule for_loop_rule[where P = ?P])
    show "?P 0 (w\<lparr>vertices := vs\<rparr>)" by simp
  next
    fix k s assume k: "0 \<le> k" "k < pDimX w" and "?P k s"
    then obtain v where v: "length v = 6 * nat k * nat (pDimZ w)" "s = w\<lparr>vertices := vs @ v\<rparr>" by blast
    obtain u where u: "length u = 6 * nat (pDimZ w)"
      "?body k (w\<lparr>vertices := vs @ v\<rparr>) = Inr (w\<lparr>vertices := (vs @ v) @ u\<rparr>)"
      using vertex_row_ok[OF assms] by blast
    have "length (v @ u) = 6 * nat (k + 1) * nat (pDimZ w)"
      using v(1) u(1) k(1) by (simp add: nat_add_distrib algebra_simps)
    then show "\<exists>s'. ?body k s = Inr s' \<and> ?P (k + 1) s'"
      using v(2) u(2)
      by (intro exI[of _ "w\<lparr>vertices := vs @ v @ u\<rparr>"] conjI exI[of _ "v @ u"]) simp_all
  qed
  then obtain v where "length v = 6 * nat (pDimX w) * nat (pDimZ w)"
    "for_loop 0 (pDimX w) ?body (w\<lparr>vertices := vs\<rparr>) = Inr (w\<lparr>vertices := vs @ v\<rparr>)"
    by (auto simp: nat_max_0)
  then show ?thesis unfolding vertex_loops_def by (intro exI[of _ v]) simp
qed


subsection \<open>Index loops\<close>

lemma index_bound:
  assumes "0 \<le> i" "i < nz - 1" "0 \<le> j" "j < nx" "0 \<le> k" "k < 2"
  shows "to_unsigned_int (j + nx * (i + k)) < nat (nx * nz)"
proof -
  have "nx * (i + k) \<le> nx * (nz - 1)"
    using assms by (intro mult_left_mono) auto
  then have up: "j + nx * (i + k) < nx * nz"
    using assms(4) by (simp add: algebra_simps)
  have lo: "0 \<le> j + nx * (i + k)" using assms by simp
  have "(j + nx * (i + k)) mod 2 ^ 32 \<le> j + nx * (i + k)"
    using lo by (rule zmod_le_nonneg_dividend)
  then show ?thesis using up lo by (simp add: to_unsigned_int_def)
qed

lemma index_pair:
  "for_loop 0 2 (\<lambda>k. push_index i j k) (w\<lparr>indices := is\<rparr>) =
     Inr (w\<lparr>indices := is @ [to_unsigned_int (j + pDimX w * (i + 0)), to_unsigned_int (j + pDimX w * (i + 1))]\<rparr>)"
  by (simp add: for_loop.simps push_index_def)

lemma index_row_ok:
  assumes "0 \<le> i" "i < pDimZ w - 1" "\<forall>x\<in>set is. x < nat (pDimX w * pDimZ w)"
  shows "\<exists>is'. for_loop 0 (pDimX w) (\<lambda>j. for_loop 0 2 (\<lambda>k. push_index i j k)) (w\<lparr>indices := is\<rparr>)
            = Inr (w\<lparr>indices := is'\<rparr>) \<and> (\<forall>x\<in>set is'. x < nat (pDimX w * pDimZ w))"
proof -
  let ?P = "\<lambda>(k::int) s. \<exists>is'. s = w\<lparr>indices := is'\<rparr> \<and> (\<forall>x\<in>set is'. x < nat (pDimX w * pDimZ w))"
  let ?body = "\<lambda>j. for_loop 0 2 (\<lambda>k. push_index i j k)"
  have "\<exists>s'. for_loop 0 (pDimX w) ?body (w\<lparr>indices := is\<rparr>) = Inr s' \<and> ?P (max 0 (pDimX w)) s'"
  proof (rule for_loop_rule[where P = ?P])
    show "?P 0 (w\<lparr>indices := is\<rparr>)" using assms(3) by blast
  next
    fix k s assume k: "0 \<le> k" "k < pDimX w" and "?P k s"
    then obtain js where js: "s = w\<lparr>indices := js\<rparr>" "\<forall>x\<in>set js. x < nat (pDimX w * pDimZ w)" by blast
    let ?js = "js @ [to_unsigned_int (k + pDimX w * (i + 0)), to_unsigned_int (k + pDimX w * (i + 1))]"
    have "\<forall>x\<in>set ?js. x < nat (pDimX w * pDimZ w)"
      using js(2) index_bound[OF assms(1,2) k, of 0] index_bound[OF assms(1,2) k, of 1] by simp
    then show "\<exists>s'. ?body k s = Inr s' \<and> ?P (k + 1) s'"
      unfolding js(1) index_pair by (intro exI[of _ "w\<lparr>indices := ?js\<rparr>"] conjI exI[of _ ?js]) simp_all
  qed
  then show ?thesis by blast
qed

lemma index_loops_ok:
  "\<exists>is. index_loops (w\<lparr>indices := []\<rparr>) = Inr (w\<lparr>indices := is\<rparr>) \<and>
     (\<forall>x\<in>set is. x < nat (pDimX w * pDimZ w))"
proof -
  let ?P = "\<lambda>(k::int) s. \<exists>is'. s = w\<lparr>indices := is'\<rparr> \<and> (\<forall>x\<in>set is'. x < nat (pDimX w * pDimZ w))"
  let ?body = "\<lambda>i. for_loop 0 (pDimX w) (\<lambda>j. for_loop 0 2 (\<lambda>k. push_index i j k))"
  have "\<exists>s'. for_loop 0 (pDimZ w - 1) ?body (w\<lparr>indices := []\<rparr>) = Inr s' \<and> ?P (max 0 (pDimZ w - 1)) s'"
  proof (rule for_loop_rule[where P = ?P])
    show "?P 0 (w\<lparr>indices := []\<rparr>)" by (intro exI[of _ "[]"]) simp
  next
    fix k s assume k: "0 \<le> k" "k < pDimZ w - 1" and "?P k s"
    then obtain js where js: "s = w\<lparr>indices := js\<rparr>" "\<forall>x\<in>set js. x < nat (pDimX w * pDimZ w)" by blast
    from index_row_ok[OF k js(2)] show "\<exists>s'. ?body k s = Inr s' \<and> ?P (k + 1) s'"
      unfolding js(1) by auto
  qed
  then show ?thesis unfolding index_loops_def by simp blast
qed

subsection \<open>setupMesh and the constructor\<close>

lemma setupMesh_ok:
  assumes "waves_ok w" "vertices w = []" "indices w = []"
  shows "\<exists>vs is. setupMesh w = Inr (w\<lparr>vertices := vs, indices := is, VBO_data := Some vs, EBO_data := Some is\<rparr>) \<and>
           length vs = 6 * nat (pDimX w) * nat (pDimZ w) \<and> (\<forall>x\<in>set is. x < nat (pDimX w * pDimZ w))"
proof -
  obtain vs where vs: "length vs = 6 * nat (pDimX w) * nat (pDimZ w)"
    "vertex_loops (w\<lparr>vertices := []\<rparr>) = Inr (w\<lparr>vertices := [] @ vs\<rparr>)"
    using vertex_loops_ok[OF assms(1)] by blast
  let ?w1 = "w\<lparr>vertices := vs\<rparr>"
  obtain js where js: "index_loops (?w1\<lparr>indices := []\<rparr>) = Inr (?w1\<lparr>indices := js\<rparr>)"
    "\<forall>x\<in>set js. x < nat (pDimX ?w1 * pDimZ ?w1)"
    using index_loops_ok[of ?w1] by blast
  have w: "w\<lparr>vertices := []\<rparr> = w" using assms(2) by simp
  have w1: "?w1\<lparr>indices := []\<rparr> = ?w1" using assms(3) by simp
  have "setupMesh w = Inr (w\<lparr>vertices := vs, indices := js, VBO_data := Some vs, EBO_data := Some js\<rparr>)"
    using vs(2) js(1) unfolding w w1 by (simp add: setupMesh_def)
  then show ?thesis using vs(1) js(2) by auto
qed


section \<open>Rounding to float\<close>

lemma rne_bounds: "y - 1 / 2 \<le> of_int (rne y)" "of_int (rne y) \<le> y + 1 / 2"
proof -
  have f: "of_int \<lfloor>y\<rfloor> \<le> y" "y < of_int \<lfloor>y\<rfloor> + 1" by linarith+
  consider "y - of_int \<lfloor>y\<rfloor> < 1 / 2" | "1 / 2 < y - of_int \<lfloor>y\<rfloor>" | "y - of_int \<lfloor>y\<rfloor> = 1 / 2"
    by linarith
  then have "y - 1 / 2 \<le> of_int (rne y) \<and> of_int (rne y) \<le> y + 1 / 2"
  proof cases
    case 1
    then have r: "rne y = \<lfloor>y\<rfloor>" by (simp add: rne_def Let_def)
    show ?thesis unfolding r using 1 by linarith
  next
    case 2
    then have r: "rne y = \<lfloor>y\<rfloor> + 1" by (simp add: rne_def Let_def)
    show ?thesis unfolding r using 2 by linarith
  next
    case 3
    then have "rne y = \<lfloor>y\<rfloor> \<or> rne y = \<lfloor>y\<rfloor> + 1" by (simp add: rne_def Let_def)
    then show ?thesis
    proof
      assume r: "rne y = \<lfloor>y\<rfloor>"
      show ?thesis unfolding r using 3 by linarith
    next
      assume r: "rne y = \<lfloor>y\<rfloor> + 1"
      show ?thesis unfolding r using 3 by linarith
    qed
  qed
  then show "y - 1 / 2 \<le> of_int (rne y)" "of_int (rne y) \<le> y + 1 / 2" by simp_all
qed

lemma rne_of_int [simp]: "rne (of_int n) = n"
  by (simp add: rne_def)

lemma rne_mono:
  assumes "x \<le> y"
  shows "rne x \<le> rne y"
proof (rule ccontr)
  assume "\<not> rne x \<le> rne y"
  then have "rne y + 1 \<le> rne x" by simp
  then have "(of_int (rne y) :: real) + 1 \<le> of_int (rne x)" by linarith
  then have "y \<le> x" using rne_bounds(1)[of y] rne_bounds(2)[of x] by linarith
  then have "x = y" using assms by simp
  then show False using \<open>\<not> rne x \<le> rne y\<close> by simp
qed

lemma to_float_0 [simp]: "to_float 0 = 0"
  by (simp add: to_float_def)

lemma to_float_minus: "to_float (- x) = - to_float x"
  by (simp add: to_float_def Let_def sgn_minus)

text \<open>The binade of a positive number.\<close>

lemma binade:
  assumes "0 < x"
  shows "2 powr of_int \<lfloor>log 2 x\<rfloor> \<le> x" "x < 2 powr (of_int \<lfloor>log 2 x\<rfloor> + 1)"
  using floor_log_eq_powr_iff[OF assms, of 2 "\<lfloor>log 2 x\<rfloor>"] by simp_all

lemma binade_unique:
  assumes "2 powr of_int e \<le> x" "x < 2 powr (of_int e + 1)"
  shows "\<lfloor>log 2 x\<rfloor> = e"
proof -
  have "0 < 2 powr (of_int e :: real)" by simp
  then have pos: "0 < x" using assms(1) by linarith
  show ?thesis using floor_log_eq_powr_iff[OF pos, of 2 e] assms by simp
qed

lemma to_float_pos:
  assumes "0 < x"
  shows "to_float x = of_int (rne (x / 2 powr (of_int \<lfloor>log 2 x\<rfloor> - 23))) * 2 powr (of_int \<lfloor>log 2 x\<rfloor> - 23)"
  using assms by (simp add: to_float_def Let_def)

lemma to_float_at:
  assumes "2 powr of_int e \<le> \<bar>x\<bar>" "\<bar>x\<bar> < 2 powr (of_int e + 1)"
  shows "to_float x = sgn x * (of_int (rne (\<bar>x\<bar> / 2 powr (of_int e - 23))) * 2 powr (of_int e - 23))"
proof -
  have "\<lfloor>log 2 \<bar>x\<bar>\<rfloor> = e" using assms by (rule binade_unique)
  moreover have "x \<noteq> 0" using assms(1) by (smt (verit) powr_gt_zero abs_zero)
  ultimately show ?thesis by (simp add: to_float_def Let_def)
qed

text \<open>A positive number and its float lie in the same closed binade.\<close>

lemma to_float_binade:
  assumes "0 < x"
  shows "2 powr of_int \<lfloor>log 2 x\<rfloor> \<le> to_float x" "to_float x \<le> 2 powr (of_int \<lfloor>log 2 x\<rfloor> + 1)"
proof -
  let ?e = "of_int \<lfloor>log 2 x\<rfloor> :: real"
  let ?u = "2 powr (?e - 23)"
  have u: "0 < ?u" by simp
  have lo: "2 powr ?e = of_int (2 ^ 23) * ?u" and hi: "2 powr (?e + 1) = of_int (2 ^ 24) * ?u"
    by (simp_all add: powr_diff powr_add)
  have "of_int (2 ^ 23) \<le> x / ?u" using binade(1)[OF assms] u unfolding lo by (simp add: le_divide_eq)
  then have "rne (of_int (2 ^ 23)) \<le> rne (x / ?u)" by (rule rne_mono)
  then have a: "(of_int (2 ^ 23) :: real) \<le> of_int (rne (x / ?u))" unfolding rne_of_int by linarith
  have "x / ?u \<le> of_int (2 ^ 24)" using binade(2)[OF assms] u unfolding hi by (simp add: divide_le_eq)
  then have "rne (x / ?u) \<le> rne (of_int (2 ^ 24))" by (rule rne_mono)
  then have b: "(of_int (rne (x / ?u)) :: real) \<le> of_int (2 ^ 24)" unfolding rne_of_int by linarith
  show "2 powr ?e \<le> to_float x"
    unfolding to_float_pos[OF assms] lo using a u by (intro mult_right_mono) simp_all
  show "to_float x \<le> 2 powr (?e + 1)"
    unfolding to_float_pos[OF assms] hi using b u by (intro mult_right_mono) simp_all
qed

lemma to_float_pos_pos: "0 < x \<Longrightarrow> 0 < to_float x"
  using to_float_binade(1)[of x] by (smt (verit) powr_gt_zero)

lemma to_float_mono_pos:
  assumes "0 < x" "x \<le> y"
  shows "to_float x \<le> to_float y"
proof -
  have y: "0 < y" using assms by simp
  let ?ex = "\<lfloor>log 2 x\<rfloor>" and ?ey = "\<lfloor>log 2 y\<rfloor>"
  have "log 2 x \<le> log 2 y" using assms by simp
  then have le: "?ex \<le> ?ey" by (rule floor_mono)
  show ?thesis
  proof (cases "?ex = ?ey")
    case True
    let ?u = "2 powr (of_int ?ey - 23) :: real"
    have "x / ?u \<le> y / ?u" using assms(2) by (simp add: divide_right_mono)
    then have "rne (x / ?u) \<le> rne (y / ?u)" by (rule rne_mono)
    then have "(of_int (rne (x / ?u)) :: real) \<le> of_int (rne (y / ?u))" by linarith
    then show ?thesis
      unfolding to_float_pos[OF assms(1)] to_float_pos[OF y] True
      by (intro mult_right_mono) simp_all
  next
    case False
    then have "?ex + 1 \<le> ?ey" using le by simp
    then have "(of_int ?ex :: real) + 1 \<le> of_int ?ey" by linarith
    then have "(2::real) powr (of_int ?ex + 1) \<le> 2 powr of_int ?ey" by simp
    then show ?thesis
      using to_float_binade(2)[OF assms(1)] to_float_binade(1)[OF y] by linarith
  qed
qed

lemma to_float_mono:
  assumes "x \<le> y"
  shows "to_float x \<le> to_float y"
proof -
  consider "0 < x" | "x \<le> 0" "0 \<le> y" | "y < 0" using assms by linarith
  then show ?thesis
  proof cases
    case 1
    then show ?thesis using assms by (rule to_float_mono_pos)
  next
    case 2
    have "to_float x \<le> 0"
    proof (cases "x = 0")
      case False
      then have "0 < to_float (- x)" using 2 by (intro to_float_pos_pos) simp
      then show ?thesis by (simp add: to_float_minus)
    qed simp
    moreover have "0 \<le> to_float y"
    proof (cases "y = 0")
      case False
      then have "0 < to_float y" using 2 by (intro to_float_pos_pos) simp
      then show ?thesis by simp
    qed simp
    ultimately show ?thesis by simp
  next
    case 3
    then have "to_float (- y) \<le> to_float (- x)" using assms by (intro to_float_mono_pos) simp_all
    then show ?thesis by (simp add: to_float_minus)
  qed
qed

lemma to_float_nonneg: "0 \<le> x \<Longrightarrow> 0 \<le> to_float x"
  using to_float_mono[of 0 x] by simp

text \<open>Rounding loses at most half a unit in the last place.\<close>

lemma to_float_lower:
  assumes "0 < x"
  shows "x * (1 - 1 / 2 ^ 24) \<le> to_float x"
proof -
  let ?e = "of_int \<lfloor>log 2 x\<rfloor> :: real"
  let ?u = "2 powr (?e - 23)"
  have u: "0 < ?u" by simp
  have "x / ?u - 1 / 2 \<le> of_int (rne (x / ?u))" by (rule rne_bounds)
  then have "(x / ?u - 1 / 2) * ?u \<le> of_int (rne (x / ?u)) * ?u"
    using u by (intro mult_right_mono) simp_all
  then have "x - ?u / 2 \<le> to_float x"
    unfolding to_float_pos[OF assms] using u by (simp add: algebra_simps)
  moreover have "?u / 2 = 2 powr ?e / 2 ^ 24" by (simp add: powr_diff)
  moreover have "2 powr ?e / 2 ^ 24 \<le> x / 2 ^ 24"
    using binade(1)[OF assms] by (simp add: divide_right_mono)
  ultimately show ?thesis by (simp add: algebra_simps)
qed

text \<open>Rounding a float again changes nothing.\<close>

lemma to_float_upper:
  assumes "0 < x"
  shows "to_float x \<le> x * (1 + 1 / 2 ^ 24)"
proof -
  let ?e = "of_int \<lfloor>log 2 x\<rfloor> :: real"
  let ?u = "2 powr (?e - 23)"
  have u: "0 < ?u" by simp
  have "of_int (rne (x / ?u)) \<le> x / ?u + 1 / 2" by (rule rne_bounds)
  then have "of_int (rne (x / ?u)) * ?u \<le> (x / ?u + 1 / 2) * ?u"
    using u by (intro mult_right_mono) simp_all
  then have "to_float x \<le> x + ?u / 2"
    unfolding to_float_pos[OF assms] using u by (simp add: algebra_simps)
  moreover have "?u / 2 = 2 powr ?e / 2 ^ 24" by (simp add: powr_diff)
  moreover have "2 powr ?e / 2 ^ 24 \<le> x / 2 ^ 24"
    using binade(1)[OF assms] by (simp add: divide_right_mono)
  ultimately show ?thesis by (simp add: algebra_simps)
qed

lemma to_float_idem_pos:
  assumes "0 < x"
  shows "to_float (to_float x) = to_float x"
proof -
  let ?e = "\<lfloor>log 2 x\<rfloor>"
  let ?u = "2 powr (of_int ?e - 23) :: real"
  let ?m = "rne (x / ?u)"
  have u: "0 < ?u" by simp
  have fx: "to_float x = of_int ?m * ?u" by (rule to_float_pos[OF assms])
  have lo: "2 powr of_int ?e \<le> to_float x" and hi: "to_float x \<le> 2 powr (of_int ?e + 1)"
    using to_float_binade[OF assms] by simp_all
  show ?thesis
  proof (cases "to_float x < 2 powr (of_int ?e + 1)")
    case True
    have "\<bar>to_float x\<bar> = to_float x" using to_float_pos_pos[OF assms] by simp
    then have "to_float (to_float x) =
        sgn (to_float x) * (of_int (rne (\<bar>to_float x\<bar> / ?u)) * ?u)"
      using lo True by (intro to_float_at) simp_all
    also have "\<dots> = of_int (rne (of_int ?m * ?u / ?u)) * ?u"
      using to_float_pos_pos[OF assms] by (simp add: fx)
    also have "of_int ?m * ?u / ?u = of_int ?m" using u by simp
    finally show ?thesis by (simp add: fx)
  next
    case False
    then have eq: "to_float x = 2 powr (of_int ?e + 1)" using hi by simp
    have "to_float (2 powr (of_int (?e + 1))) =
        sgn (2 powr (of_int (?e + 1))) *
          (of_int (rne (\<bar>2 powr (of_int (?e + 1))\<bar> / 2 powr (of_int (?e + 1) - 23))) *
           2 powr (of_int (?e + 1) - 23))"
      by (intro to_float_at) simp_all
    also have "\<bar>2 powr (of_int (?e + 1))\<bar> / 2 powr (of_int (?e + 1) - 23) = (of_int (2 ^ 23) :: real)"
      by (simp add: powr_diff powr_add)
    finally have "to_float (2 powr (of_int (?e + 1))) = 2 powr (of_int (?e + 1))"
      unfolding rne_of_int by (simp add: powr_diff powr_add)
    then show ?thesis unfolding eq by simp
  qed
qed

lemma to_float_idem [simp]: "to_float (to_float x) = to_float x"
proof -
  consider "0 < x" | "x = 0" | "x < 0" by linarith
  then show ?thesis
  proof cases
    case 1
    then show ?thesis by (rule to_float_idem_pos)
  next
    case 2
    then show ?thesis by simp
  next
    case 3
    then have "to_float (to_float (- x)) = to_float (- x)" by (intro to_float_idem_pos) simp
    then show ?thesis by (simp add: to_float_minus)
  qed
qed

subsection \<open>Some floats\<close>

lemma to_float_1 [simp]: "to_float 1 = 1"
  using to_float_at[of 0 1] by (simp add: rne_def Let_def powr_neg_numeral)

lemma to_float_2 [simp]: "to_float 2 = 2"
  using to_float_at[of 1 2] by (simp add: rne_def Let_def powr_neg_numeral)

lemma to_float_half [simp]: "to_float (1 / 2) = 1 / 2"
  using to_float_at[of "- 1" "1 / 2"] by (simp add: rne_def Let_def powr_neg_numeral)

lemma to_float_neg_1 [simp]: "to_float (- 1) = - 1"
  by (simp add: to_float_minus)

lemma to_float_MAXSPED: "to_float (5 / 1000) = 10737418 / 2147483648"
  using to_float_at[of "- 8" "5 / 1000"] by (simp add: rne_def Let_def powr_neg_numeral)


lemma to_float_RAND_MAX: "to_float 2147483647 = 2147483648"
  using to_float_at[of 30 2147483647] by (simp add: rne_def Let_def powr_neg_numeral)

lemma to_float_2_31: "to_float 2147483648 = 2147483648"
  using to_float_at[of 31 2147483648] by (simp add: rne_def Let_def powr_neg_numeral)

section \<open>The wave loop of the constructor\<close>

lemma rand_ok_rand: "rand_ok rmax g \<Longrightarrow> rand_ok rmax (snd (rand g)) \<and> 0 \<le> fst (rand g) \<and> fst (rand g) \<le> rmax"
  by (simp add: rand_ok_def rand_def)

lemma randFloat_rng: "rand_ok rmax g \<Longrightarrow> rand_ok rmax (snd (randFloat rmax x g))"
  by (simp add: randFloat_def rand_def rand_ok_def)

lemma rand_ok_floats:
  assumes "rand_ok rmax g"
  shows "0 \<le> to_float (real_of_int (fst (rand g)))"
    and "to_float (real_of_int (fst (rand g))) \<le> to_float (real_of_int rmax)"
    and "1 \<le> to_float (real_of_int rmax)"
proof -
  have r: "0 \<le> fst (rand g)" "fst (rand g) \<le> rmax" and pos: "1 \<le> rmax"
    using rand_ok_rand[OF assms] assms by (simp_all add: rand_ok_def)
  show "0 \<le> to_float (real_of_int (fst (rand g)))" using r(1) by (intro to_float_nonneg) simp
  show "to_float (real_of_int (fst (rand g))) \<le> to_float (real_of_int rmax)"
    using r(2) by (intro to_float_mono) simp
  have "to_float 1 \<le> to_float (real_of_int rmax)" using pos by (intro to_float_mono) simp
  then show "1 \<le> to_float (real_of_int rmax)" by simp
qed

lemma randFloat_val:
  "fst (randFloat rmax x g) =
     to_float (to_float (real_of_int (fst (rand g))) / to_float (to_float (real_of_int rmax) / to_float x))"
  by (simp add: randFloat_def split: prod.splits)

lemma randFloat_nonneg:
  assumes "rand_ok rmax g" "0 \<le> x"
  shows "0 \<le> fst (randFloat rmax x g)"
proof -
  note f = rand_ok_floats[OF assms(1)]
  have "0 \<le> to_float (real_of_int rmax) / to_float x"
    using f(3) to_float_nonneg[OF assms(2)] by simp
  then have "0 \<le> to_float (to_float (real_of_int rmax) / to_float x)" by (rule to_float_nonneg)
  then have "0 \<le> to_float (real_of_int (fst (rand g))) / to_float (to_float (real_of_int rmax) / to_float x)"
    using f(1) by simp
  then show ?thesis unfolding randFloat_val by (rule to_float_nonneg)
qed

lemma randFloat_unit:
  assumes "rand_ok rmax g"
  shows "fst (randFloat rmax 1 g) \<le> 1"
proof -
  note f = rand_ok_floats[OF assms]
  have "to_float (real_of_int (fst (rand g))) / to_float (real_of_int rmax) \<le> 1"
    using f(2,3) by (simp add: divide_le_eq)
  then have "to_float (to_float (real_of_int (fst (rand g))) / to_float (real_of_int rmax)) \<le> to_float 1"
    by (rule to_float_mono)
  then show ?thesis by (simp add: randFloat_val)
qed

text \<open>
  The two roundings of \<^verbatim>\<open>randFloat(x)\<close> can carry the result above \<open>x\<close>, by a
  relative error of less than \<open>2 ^ - 22\<close>.
\<close>

lemma randFloat_upper:
  assumes "rand_ok rmax g" "0 \<le> x"
  shows "fst (randFloat rmax x g) \<le> x * (1 + 1 / 2 ^ 22)"
proof (cases "x = 0")
  case True
  then show ?thesis by (simp add: randFloat_val)
next
  case False
  then have x: "0 < x" using assms(2) by simp
  note f = rand_ok_floats[OF assms(1)]
  let ?a = "to_float (real_of_int (fst (rand g)))" and ?b = "to_float (real_of_int rmax)"
  let ?x = "to_float x"
  have xf: "0 < ?x" "?x \<le> x * (1 + 1 / 2 ^ 24)"
    using to_float_pos_pos[OF x] to_float_upper[OF x] by simp_all
  have t: "0 < ?b / ?x" using f(3) xf(1) by simp
  let ?q = "to_float (?b / ?x)"
  have q: "?b / ?x * (1 - 1 / 2 ^ 24) \<le> ?q" using t by (rule to_float_lower)
  have q0: "0 < ?b / ?x * (1 - 1 / 2 ^ 24)" using t by simp
  have "?a / ?q \<le> ?b / ?q" using f(2) q q0 by (intro divide_right_mono) simp_all
  also have "\<dots> \<le> ?b / (?b / ?x * (1 - 1 / 2 ^ 24))"
    using q q0 f(3) by (intro divide_left_mono mult_pos_pos) simp_all
  also have "\<dots> = ?x / (1 - 1 / 2 ^ 24)" using f(3) by simp
  finally have le: "?a / ?q \<le> ?x / (1 - 1 / 2 ^ 24)" .
  have "to_float (?a / ?q) \<le> ?x / (1 - 1 / 2 ^ 24) * (1 + 1 / 2 ^ 24)"
  proof (cases "?a / ?q = 0")
    case True
    have "to_float (?a / ?q) = 0" by (simp only: True to_float_0)
    then show ?thesis using xf(1) by simp
  next
    case False
    have "0 \<le> ?a / ?q" using f(1) q q0 by simp
    then have "0 < ?a / ?q" using False by linarith
    then have "to_float (?a / ?q) \<le> ?a / ?q * (1 + 1 / 2 ^ 24)" by (rule to_float_upper)
    also have "\<dots> \<le> ?x / (1 - 1 / 2 ^ 24) * (1 + 1 / 2 ^ 24)"
      using le by (intro mult_right_mono) simp_all
    finally show ?thesis .
  qed
  also have "\<dots> \<le> x * (1 + 1 / 2 ^ 24) / (1 - 1 / 2 ^ 24) * (1 + 1 / 2 ^ 24)"
    using xf(2) by (intro mult_right_mono divide_right_mono) simp_all
  also have "\<dots> = x * ((1 + 1 / 2 ^ 24) / (1 - 1 / 2 ^ 24) * (1 + 1 / 2 ^ 24))" by simp
  also have "\<dots> \<le> x * (1 + 1 / 2 ^ 22)"
    using x by (intro mult_left_mono) simp_all
  finally show ?thesis unfolding randFloat_val .
qed

text \<open>
  \<^verbatim>\<open>randFloat(MAXSPED)\<close> can exceed \<^verbatim>\<open>MAXSPED\<close>, which is the float
  \<open>10737418 / 2 ^ 31\<close>, by one unit in the last place, and by no more.
\<close>

lemma to_float_above_MAXSPED:
  "to_float (10737418 / 2147483648 / (1 - 1 / 2 ^ 24)) = 10737419 / 2147483648"
  using to_float_at[of "- 8" "10737418 / 2147483648 / (1 - 1 / 2 ^ 24)"]
  by (simp add: rne_def Let_def powr_neg_numeral)

lemma randFloat_MAXSPED:
  assumes "rand_ok rmax g"
  shows "fst (randFloat rmax MAXSPED g) \<le> 10737419 / 2147483648"
proof -
  note f = rand_ok_floats[OF assms]
  let ?a = "to_float (real_of_int (fst (rand g)))" and ?b = "to_float (real_of_int rmax)"
  let ?x = "10737418 / 2147483648 :: real"
  have x: "to_float MAXSPED = ?x" unfolding MAXSPED_def by (rule to_float_MAXSPED)
  have t: "0 < ?b / ?x" using f(3) by simp
  let ?q = "to_float (?b / ?x)"
  have q: "?b / ?x * (1 - 1 / 2 ^ 24) \<le> ?q" using t by (rule to_float_lower)
  have q0: "0 < ?b / ?x * (1 - 1 / 2 ^ 24)" using t by simp
  have "?a / ?q \<le> ?b / ?q" using f(2) q q0 by (intro divide_right_mono) simp_all
  also have "\<dots> \<le> ?b / (?b / ?x * (1 - 1 / 2 ^ 24))"
    using q q0 f(3) by (intro divide_left_mono mult_pos_pos) simp_all
  also have "\<dots> = ?x / (1 - 1 / 2 ^ 24)" using f(3) by simp
  finally have "to_float (?a / ?q) \<le> to_float (?x / (1 - 1 / 2 ^ 24))" by (rule to_float_mono)
  then show ?thesis unfolding randFloat_val x to_float_above_MAXSPED .
qed

lemma to_float_largest_Si: "to_float (10737419 / 2147483648 * 0.5 + 1 * 0.5) = 8430551 / 16777216"
  using to_float_at[of "- 1" "10737419 / 2147483648 * 0.5 + 1 * 0.5"]
  by (simp add: rne_def Let_def powr_neg_numeral)

lemma MAX_nonneg: "0 \<le> MAXFREQ" "0 \<le> MAXSPED"
  by (simp_all add: MAXFREQ_def MAXSPED_def)

lemma push_wave_ok:
  "\<exists>w' g'. push_wave rmax i (w, g) = Inr (w', g') \<and> no_waves w' = no_waves w \<and>
     length (Ai w') = Suc (length (Ai w)) \<and> length (wi w') = Suc (length (wi w)) \<and>
     length (Di w') = Suc (length (Di w)) \<and> length (Si w') = Suc (length (Si w)) \<and>
     (rand_ok rmax g \<longrightarrow> waves_in_range w \<longrightarrow> rand_ok rmax g' \<and> waves_in_range w')"
proof -
  obtain a g1 where 1: "randFloat rmax (maxA w) g = (a, g1)" by (cases "randFloat rmax (maxA w) g")
  obtain f g2 where 2: "randFloat rmax MAXFREQ g1 = (f, g2)" by (cases "randFloat rmax MAXFREQ g1")
  obtain d1 g3 where 3: "randFloat rmax 1 g2 = (d1, g3)" by (cases "randFloat rmax 1 g2")
  obtain d2 g4 where 4: "randFloat rmax 1 g3 = (d2, g4)" by (cases "randFloat rmax 1 g3")
  obtain sp g5 where 5: "randFloat rmax MAXSPED g4 = (sp, g5)" by (cases "randFloat rmax MAXSPED g4")
  let ?w' = "w\<lparr>Ai := Ai w @ [a], wi := wi w @ [to_float (f * 0.5 + MAXFREQ * 0.5)],
               Di := Di w @ [Vec2 (to_float (to_float (d1 * 2) - 1)) (to_float (to_float (d2 * 2) - 1))],
               Si := Si w @ [to_float (sp * 0.5 + MAXFREQ * 0.5)]\<rparr>"
  have eq: "push_wave rmax i (w, g) = Inr (?w', g5)"
    by (simp add: push_wave_def 1 2 3 4 5)
  have rng: "rand_ok rmax g5 \<and> waves_in_range ?w'" if ok: "rand_ok rmax g" and inr: "waves_in_range w"
  proof -
    have a: "0 \<le> maxA w \<longrightarrow> 0 \<le> a \<and> a \<le> maxA w * (1 + 1 / 2 ^ 22)"
      using randFloat_nonneg[OF ok, of "maxA w"] randFloat_upper[OF ok, of "maxA w"] by (simp add: 1)
    have g1: "rand_ok rmax g1" using randFloat_rng[OF ok, of "maxA w"] by (simp add: 1)
    have f: "0 \<le> f" "f \<le> 1"
      using randFloat_nonneg[OF g1 MAX_nonneg(1)] randFloat_unit[OF g1] 2 by (simp_all add: MAXFREQ_def)
    have g2: "rand_ok rmax g2" using randFloat_rng[OF g1, of MAXFREQ] by (simp add: 2)
    have d1: "0 \<le> d1" "d1 \<le> 1"
      using randFloat_nonneg[OF g2, of 1] randFloat_unit[OF g2] by (simp_all add: 3)
    have g3: "rand_ok rmax g3" using randFloat_rng[OF g2, of 1] by (simp add: 3)
    have d2: "0 \<le> d2" "d2 \<le> 1"
      using randFloat_nonneg[OF g3, of 1] randFloat_unit[OF g3] by (simp_all add: 4)
    have g4: "rand_ok rmax g4" using randFloat_rng[OF g3, of 1] by (simp add: 4)
    have sp: "0 \<le> sp" "sp \<le> 10737419 / 2147483648"
      using randFloat_nonneg[OF g4 MAX_nonneg(2)] randFloat_MAXSPED[OF g4] by (simp_all add: 5)
    have g5: "rand_ok rmax g5" using randFloat_rng[OF g4, of MAXSPED] by (simp add: 5)
    have freq: "MAXFREQ / 2 \<le> to_float (f * 0.5 + MAXFREQ * 0.5)" "to_float (f * 0.5 + MAXFREQ * 0.5) \<le> MAXFREQ"
    proof -
      have "to_float (1 / 2) \<le> to_float (f * 0.5 + MAXFREQ * 0.5)"
        using f(1) by (intro to_float_mono) (simp add: MAXFREQ_def)
      then show "MAXFREQ / 2 \<le> to_float (f * 0.5 + MAXFREQ * 0.5)" by (simp add: MAXFREQ_def)
      have "to_float (f * 0.5 + MAXFREQ * 0.5) \<le> to_float 1"
        using f(2) by (intro to_float_mono) (simp add: MAXFREQ_def)
      then show "to_float (f * 0.5 + MAXFREQ * 0.5) \<le> MAXFREQ" by (simp add: MAXFREQ_def)
    qed
    have dir: "- 1 \<le> to_float (to_float (d * 2) - 1) \<and> to_float (to_float (d * 2) - 1) \<le> 1"
      if "0 \<le> d" "d \<le> 1" for d
    proof -
      have "to_float 0 \<le> to_float (d * 2)" "to_float (d * 2) \<le> to_float 2"
        using that by (intro to_float_mono; simp)+
      then have m: "- 1 \<le> to_float (d * 2) - 1" "to_float (d * 2) - 1 \<le> 1" by simp_all
      have "to_float (- 1) \<le> to_float (to_float (d * 2) - 1)" using m(1) by (rule to_float_mono)
      moreover have "to_float (to_float (d * 2) - 1) \<le> to_float 1" using m(2) by (rule to_float_mono)
      ultimately show ?thesis by simp
    qed
    have speed: "MAXFREQ / 2 \<le> to_float (sp * 0.5 + MAXFREQ * 0.5)"
      "to_float (sp * 0.5 + MAXFREQ * 0.5) \<le> MAXFREQ / 2 + MAXSPED / 2"
    proof -
      have "to_float (1 / 2) \<le> to_float (sp * 0.5 + MAXFREQ * 0.5)"
        using sp(1) by (intro to_float_mono) (simp add: MAXFREQ_def)
      then show "MAXFREQ / 2 \<le> to_float (sp * 0.5 + MAXFREQ * 0.5)" by (simp add: MAXFREQ_def)
      have "to_float (sp * 0.5 + MAXFREQ * 0.5) \<le> to_float (10737419 / 2147483648 * 0.5 + 1 * 0.5)"
        using sp(2) by (intro to_float_mono) (simp add: MAXFREQ_def)
      then show "to_float (sp * 0.5 + MAXFREQ * 0.5) \<le> MAXFREQ / 2 + MAXSPED / 2"
        unfolding to_float_largest_Si by (simp add: MAXFREQ_def MAXSPED_def)
    qed
    show ?thesis
      using inr a freq dir[OF d1] dir[OF d2] speed g5 by (simp add: waves_in_range_def)
  qed
  show ?thesis
    unfolding eq using rng by (intro exI[of _ ?w'] exI[of _ g5]) (simp add: no_waves_def)
qed

lemma wave_loop_ok:
  assumes "Ai w = []" "wi w = []" "Di w = []" "Si w = []"
  shows "\<exists>w' g'. for_loop 0 n (push_wave rmax) (w, g) = Inr (w', g') \<and> no_waves w' = no_waves w \<and>
     length (Ai w') = nat n \<and> length (wi w') = nat n \<and> length (Di w') = nat n \<and> length (Si w') = nat n \<and>
     (rand_ok rmax g \<longrightarrow> waves_in_range w')"
proof -
  let ?P = "\<lambda>k st. no_waves (fst st) = no_waves w \<and>
     length (Ai (fst st)) = nat k \<and> length (wi (fst st)) = nat k \<and>
     length (Di (fst st)) = nat k \<and> length (Si (fst st)) = nat k \<and>
     (rand_ok rmax g \<longrightarrow> rand_ok rmax (snd st) \<and> waves_in_range (fst st))"
  have "\<exists>st. for_loop 0 n (push_wave rmax) (w, g) = Inr st \<and> ?P (max 0 n) st"
  proof (rule for_loop_rule[where P = ?P])
    show "?P 0 (w, g)" using assms by (simp add: waves_in_range_def)
  next
    fix k st assume k: "0 \<le> k" "k < n" and P: "?P k st"
    obtain w1 g1 where st: "st = (w1, g1)" by (cases st)
    obtain w2 g2 where step: "push_wave rmax k (w1, g1) = Inr (w2, g2)" "no_waves w2 = no_waves w1"
      "length (Ai w2) = Suc (length (Ai w1))" "length (wi w2) = Suc (length (wi w1))"
      "length (Di w2) = Suc (length (Di w1))" "length (Si w2) = Suc (length (Si w1))"
      "rand_ok rmax g1 \<longrightarrow> waves_in_range w1 \<longrightarrow> rand_ok rmax g2 \<and> waves_in_range w2"
      using push_wave_ok[of rmax k w1 g1] by blast
    have suc: "Suc (nat k) = nat (k + 1)" using k(1) by simp
    have "?P (k + 1) (w2, g2)"
      using P step(2-7) unfolding st suc[symmetric] by simp
    then show "\<exists>st'. push_wave rmax k st = Inr st' \<and> ?P (k + 1) st'"
      unfolding st using step(1) by blast
  qed
  then obtain w' g' where "for_loop 0 n (push_wave rmax) (w, g) = Inr (w', g')" "?P (max 0 n) (w', g')"
    by (metis prod.collapse)
  then show ?thesis
    by (intro exI[of _ w'] exI[of _ g']) (simp add: nat_max_0)
qed

lemma no_waves_fields:
  assumes "no_waves w' = no_waves w"
  shows "vertices w' = vertices w" "indices w' = indices w" "internalTime w' = internalTime w"
    "VBO_data w' = VBO_data w" "EBO_data w' = EBO_data w"
    "pX w' = pX w" "pZ w' = pZ w" "pW w' = pW w" "pL w' = pL w" "pDimX w' = pDimX w" "pDimZ w' = pDimZ w"
    "maxA w' = maxA w" "maxI w' = maxI w" "directional w' = directional w" "rounded w' = rounded w"
    "animated w' = animated w"
proof -
  have "f (no_waves w') = f (no_waves w)" for f :: "water \<Rightarrow> 'b" using assms by simp
  note eq = this
  show "vertices w' = vertices w" using eq[of vertices] by (simp add: no_waves_def)
  show "indices w' = indices w" using eq[of indices] by (simp add: no_waves_def)
  show "internalTime w' = internalTime w" using eq[of internalTime] by (simp add: no_waves_def)
  show "VBO_data w' = VBO_data w" using eq[of VBO_data] by (simp add: no_waves_def)
  show "EBO_data w' = EBO_data w" using eq[of EBO_data] by (simp add: no_waves_def)
  show "pX w' = pX w" using eq[of pX] by (simp add: no_waves_def)
  show "pZ w' = pZ w" using eq[of pZ] by (simp add: no_waves_def)
  show "pW w' = pW w" using eq[of pW] by (simp add: no_waves_def)
  show "pL w' = pL w" using eq[of pL] by (simp add: no_waves_def)
  show "pDimX w' = pDimX w" using eq[of pDimX] by (simp add: no_waves_def)
  show "pDimZ w' = pDimZ w" using eq[of pDimZ] by (simp add: no_waves_def)
  show "maxA w' = maxA w" using eq[of maxA] by (simp add: no_waves_def)
  show "maxI w' = maxI w" using eq[of maxI] by (simp add: no_waves_def)
  show "directional w' = directional w" using eq[of directional] by (simp add: no_waves_def)
  show "rounded w' = rounded w" using eq[of rounded] by (simp add: no_waves_def)
  show "animated w' = animated w" using eq[of animated] by (simp add: no_waves_def)
qed

lemma Water_ctor_supported:
  "\<exists>w. Water_ctor rmax g junk px pz pw pl pdimx pdimz maxa maxi True True anim = Inr w \<and>
     constructed px pz pw pl pdimx pdimz maxa maxi anim w \<and> (rand_ok rmax g \<longrightarrow> waves_in_range w)"
proof -
  let ?w0 = "Water_init junk px pz pw pl pdimx pdimz maxa maxi True True anim"
  obtain w1 g1 where w1: "for_loop 0 maxi (push_wave rmax) (?w0, g) = Inr (w1, g1)"
    "no_waves w1 = no_waves ?w0"
    "length (Ai w1) = nat maxi" "length (wi w1) = nat maxi" "length (Di w1) = nat maxi" "length (Si w1) = nat maxi"
    "rand_ok rmax g \<longrightarrow> waves_in_range w1"
    using wave_loop_ok[of ?w0 maxi rmax g] by (auto simp: Water_init_def)
  note f = no_waves_fields[OF w1(2)]
  let ?w2 = "w1\<lparr>internalTime := 0\<rparr>"
  have ok: "waves_ok ?w2"
    using w1(3-6) f by (simp add: waves_ok_def Water_init_def)
  have "vertices ?w2 = []" "indices ?w2 = []" using f by (simp_all add: Water_init_def)
  from setupMesh_ok[OF ok this] obtain vs js where m:
    "setupMesh ?w2 = Inr (?w2\<lparr>vertices := vs, indices := js, VBO_data := Some vs, EBO_data := Some js\<rparr>)"
    "length vs = 6 * nat (pDimX ?w2) * nat (pDimZ ?w2)" "\<forall>x\<in>set js. x < nat (pDimX ?w2 * pDimZ ?w2)"
    by blast
  let ?w = "?w2\<lparr>vertices := vs, indices := js, VBO_data := Some vs, EBO_data := Some js\<rparr>"
  have "Water_ctor rmax g junk px pz pw pl pdimx pdimz maxa maxi True True anim = Inr ?w"
    by (simp add: Water_ctor_def w1(1) m(1))
  moreover have "constructed px pz pw pl pdimx pdimz maxa maxi anim ?w"
    using w1(3-6) f m(2,3) by (simp add: constructed_def Water_init_def list_all_iff)
  moreover have "rand_ok rmax g \<longrightarrow> waves_in_range ?w"
    using w1(7) by (simp add: waves_in_range_def)
  ultimately show ?thesis by blast
qed


section \<open>Concrete evaluation\<close>

lemma rand_const: "rand (rng_const r) = (r, rng_const r)"
  by (simp add: rand_def rng_const_def)

lemmas eval_defs = Water_ctor_def Water_init_def push_wave_def randFloat_def rand_const
  setupMesh_def vertex_loops_def index_loops_def push_vertex_def push_index_def sample_x_def sample_z_def
  c_div_def H_def N_def W_def ddxH_def ddyH_def ddxW_def ddyW_def vector_at_def dot_def
  MAXFREQ_def MAXSPED_def to_unsigned_int_def

lemma example_water_constructed:
  "Water_ctor 32767 (rng_const 0) 0 0 0 50 50 2 2 (1 / 10) 1 True True False = Inr example_water"
  by (simp add: eval_defs for_loop.simps example_water_def)

lemma rand_ok_const: "0 < rmax \<Longrightarrow> 0 \<le> r \<Longrightarrow> r \<le> rmax \<Longrightarrow> rand_ok rmax (rng_const r)"
  by (simp add: rand_ok_def rng_const_def)

section \<open>Construction in an unsupported mode\<close>

lemma Water_ctor_unsupported:
  "\<not> (dir \<and> rnd) \<Longrightarrow>
   Water_ctor rmax g junk px pz pw pl pdimx pdimz maxa maxi dir rnd anim =
     Inr (Water_init junk px pz pw pl pdimx pdimz maxa maxi dir rnd anim)"
  by (auto simp: Water_ctor_def Let_def)

text \<open>
  Claim C3 as stated (a wave mode other than (directional, rounded) makes
  construction signal "unsupported mode" and abort) fails: the constructor has
  no error path. With the arguments of \<^verbatim>\<open>Kernel::start\<close> but \<^verbatim>\<open>dir = false\<close>, it
  returns an object, which has no waves and no mesh.
\<close>

theorem unsupported_mode_constructs_counterexample:
  "Water_ctor 2147483647 (rng_const 0) 0 0 0 50 50 500 500 (1 / 10) 20 False True False =
     Inr \<lparr>vertices = [], indices = [], internalTime = 0, VBO_data = None, EBO_data = None,
          pX = 0, pZ = 0, pW = 50, pL = 50, pDimX = 500, pDimZ = 500, maxA = 1 / 10, maxI = 20,
          directional = False, rounded = True, animated = False,
          Ai = [], wi = [], Di = [], Si = []\<rparr>"
  by (simp add: Water_ctor_def Water_init_def)

text \<open>
  Claim C3, amended. For every construction request whose wave mode is not
  (directional, rounded), construction signals no error and returns the object:
  its wave set, its vertex and index vectors are empty, and no buffer has been
  created.
\<close>

theorem unsupported_mode_constructs:
  assumes "\<not> (dir \<and> rnd)"
  shows "\<exists>w. Water_ctor rmax g junk px pz pw pl pdimx pdimz maxa maxi dir rnd anim = Inr w \<and>
           Ai w = [] \<and> wi w = [] \<and> Di w = [] \<and> Si w = [] \<and>
           vertices w = [] \<and> indices w = [] \<and> VBO_data w = None \<and> EBO_data w = None \<and>
           directional w = dir \<and> rounded w = rnd"
  unfolding Water_ctor_unsupported[OF assms] by (simp add: Water_init_def)

theorem unsupported_mode_constructs_witness:
  "\<not> (False \<and> True) \<and>
   (\<exists>w. Water_ctor 2147483647 (rng_const 0) 0 0 0 50 50 500 500 (1 / 10) 20 False True False = Inr w \<and>
        Ai w = [] \<and> wi w = [] \<and> Di w = [] \<and> Si w = [] \<and>
        vertices w = [] \<and> indices w = [] \<and> VBO_data w = None \<and> EBO_data w = None \<and>
        directional w = False \<and> rounded w = True)"
  using unsupported_mode_constructs[of False True 2147483647 "rng_const 0" 0 0 0 50 50 500 500 "1 / 10" 20 False]
  by simp

section \<open>Indices stay inside the vertex buffer\<close>

text \<open>
  Claim C10. For every grid with \<open>Nx \<ge> 1\<close> and \<open>Nz \<ge> 1\<close>, construction returns an
  object in which every index emitted into the index vector is strictly less
  than \<open>Nx * Nz\<close> and names six floats that exist in the vertex vector. In the
  supported mode the vertex vector holds \<open>Nx * Nz\<close> vertices and the element
  buffer holds the index vector; in the other modes nothing is emitted.
\<close>

theorem indices_below_vertex_count:
  assumes "1 \<le> pdimx" "1 \<le> pdimz"
  shows "\<exists>w. Water_ctor rmax g junk px pz pw pl pdimx pdimz maxa maxi dir rnd anim = Inr w \<and>
           length (vertices w) = (if dir \<and> rnd then 6 * nat (pdimx * pdimz) else 0) \<and>
           EBO_data w = (if dir \<and> rnd then Some (indices w) else None) \<and>
           (\<forall>idx\<in>set (indices w). idx < nat (pdimx * pdimz) \<and> 6 * idx + 5 < length (vertices w))"
proof (cases "dir \<and> rnd")
  case True
  obtain w where w: "Water_ctor rmax g junk px pz pw pl pdimx pdimz maxa maxi True True anim = Inr w"
    "constructed px pz pw pl pdimx pdimz maxa maxi anim w"
    using Water_ctor_supported by blast
  have n: "nat pdimx * nat pdimz = nat (pdimx * pdimz)"
    using assms by (simp add: nat_mult_distrib)
  have len: "length (vertices w) = 6 * nat (pdimx * pdimz)"
    using w(2) n by (simp add: constructed_def mult.assoc)
  have "idx < nat (pdimx * pdimz) \<and> 6 * idx + 5 < length (vertices w)" if "idx \<in> set (indices w)" for idx
  proof -
    have "idx < nat (pdimx * pdimz)" using w(2) that by (simp add: constructed_def list_all_iff)
    then show ?thesis unfolding len by simp
  qed
  then show ?thesis
    using True w len by (intro exI[of _ w]) (simp add: constructed_def)
next
  case False
  then show ?thesis
    unfolding Water_ctor_unsupported[OF False] using False by (auto simp: Water_init_def)
qed

theorem indices_below_vertex_count_witness:
  "(1::int) \<le> 2 \<and> (1::int) \<le> 2 \<and>
   Water_ctor 32767 (rng_const 0) 0 0 0 50 50 2 2 (1 / 10) 1 True True False = Inr example_water \<and>
   length (vertices example_water) = 6 * nat (2 * 2) \<and>
   EBO_data example_water = Some (indices example_water) \<and>
   indices example_water = [0, 2, 1, 3] \<and>
   list_all (\<lambda>idx. idx < nat (2 * 2) \<and> 6 * idx + 5 < length (vertices example_water)) (indices example_water)"
  using indices_below_vertex_count[of 2 2 32767 "rng_const 0" 0 0 0 50 50 "1 / 10" 1 True True False]
  by (simp add: example_water_constructed list_all_iff) (simp add: example_water_def)

section \<open>The clock\<close>

text \<open>
  Claim C9 as stated (a negative \<open>dt\<close> signals "invalid time step" instead of
  changing \<open>t\<close>) fails: \<^verbatim>\<open>updateTime\<close> has no check. On a constructed object,
  whose time is 0, \<open>updateTime\<close> with \<open>dT = -1\<close> sets the time to \<open>-1\<close>.
\<close>

theorem negative_time_step_counterexample:
  "Water_ctor 32767 (rng_const 0) 0 0 0 50 50 2 2 (1 / 10) 1 True True False = Inr example_water \<and>
   internalTime example_water = 0 \<and>
   internalTime (updateTime example_water (- 1)) = - 1"
  by (simp add: example_water_constructed) (simp add: example_water_def updateTime_def)

text \<open>
  Claim C9, amended. For every \<open>dt\<close>, negative or not, advancing the clock sets
  the simulation time \<open>t\<close> to \<open>t + dt\<close>; no error is signalled.
\<close>

theorem updateTime_adds:
  "internalTime (updateTime w dT) = internalTime w + dT"
  by (simp add: updateTime_def)

section \<open>The wave set of a constructed object\<close>

lemma setupMesh_waves:
  assumes "setupMesh w = Inr w'" "waves_ok w" "vertices w = []" "indices w = []"
  shows "Ai w' = Ai w" "wi w' = wi w" "Di w' = Di w" "Si w' = Si w"
  using setupMesh_ok[OF assms(2-4)] assms(1) by auto

lemma Water_ctor_waves:
  assumes "for_loop 0 maxi (push_wave rmax)
             (Water_init junk px pz pw pl pdimx pdimz maxa maxi True True anim, g) = Inr (w1, g1)"
  shows "\<exists>w. Water_ctor rmax g junk px pz pw pl pdimx pdimz maxa maxi True True anim = Inr w \<and>
           Ai w = Ai w1 \<and> wi w = wi w1 \<and> Di w = Di w1 \<and> Si w = Si w1"
proof -
  let ?w0 = "Water_init junk px pz pw pl pdimx pdimz maxa maxi True True anim"
  obtain w1' g1' where w1: "for_loop 0 maxi (push_wave rmax) (?w0, g) = Inr (w1', g1')"
    "no_waves w1' = no_waves ?w0"
    "length (Ai w1') = nat maxi" "length (wi w1') = nat maxi" "length (Di w1') = nat maxi" "length (Si w1') = nat maxi"
    using wave_loop_ok[of ?w0 maxi rmax g] by (auto simp: Water_init_def)
  have same: "w1' = w1" using w1(1) assms by simp
  note f = no_waves_fields[OF w1(2)]
  let ?w2 = "w1\<lparr>internalTime := 0\<rparr>"
  have ok: "waves_ok ?w2"
    using w1(3-6) f unfolding same by (simp add: waves_ok_def Water_init_def)
  have e: "vertices ?w2 = []" "indices ?w2 = []" using f unfolding same by (simp_all add: Water_init_def)
  obtain w where w: "setupMesh ?w2 = Inr w" using setupMesh_ok[OF ok e] by blast
  have "Water_ctor rmax g junk px pz pw pl pdimx pdimz maxa maxi True True anim = Inr w"
    by (simp add: Water_ctor_def assms w)
  then show ?thesis using setupMesh_waves[OF w ok e] by simp
qed

lemma Kernel_waves_rand_0:
  "for_loop 0 20 (push_wave 2147483647)
     (Water_init 0 0 0 50 50 500 500 (1 / 10) 20 True True False, rng_const 0) =
   Inr ((Water_init 0 0 0 50 50 500 500 (1 / 10) 20 True True False)
          \<lparr>Ai := replicate 20 0, wi := replicate 20 (1 / 2),
           Di := replicate 20 (Vec2 (- 1) (- 1)), Si := replicate 20 (1 / 2)\<rparr>, rng_const 0)"
  by (simp add: for_loop.simps push_wave_def randFloat_def rand_const Water_init_def MAXFREQ_def MAXSPED_def
      numeral_eq_Suc)

lemma to_float_1_200: "to_float (1 / 200) = 5368709 / 1073741824"
  using to_float_at[of "- 8" "1 / 200"] by (simp add: rne_def Let_def powr_neg_numeral)

lemma to_float_Si_RAND_MAX: "to_float (5368709 / 1073741824 * 0.5 + 1 * 0.5) = 8430551 / 16777216"
  using to_float_at[of "- 1" "5368709 / 1073741824 * 0.5 + 1 * 0.5"]
  by (simp add: rne_def Let_def powr_neg_numeral)




text \<open>
  The same loop with \<^verbatim>\<open>RAND_MAX = 2147483647\<close>, \<^verbatim>\<open>maxA = 0.007f\<close>, which is the
  float \<open>7516193 / 2 ^ 30\<close>, and every \<^verbatim>\<open>rand()\<close> returning \<^verbatim>\<open>RAND_MAX\<close>:
  \<^verbatim>\<open>(float)RAND_MAX\<close> is \<open>2 ^ 31\<close>, the quotient \<open>2 ^ 31 / maxA\<close> is rounded
  down to \<open>306783354880\<close>, and \<open>2 ^ 31 / 306783354880\<close> is rounded to
  \<open>15032387 / 2 ^ 31\<close>, one unit in the last place above \<^verbatim>\<open>maxA\<close>.
\<close>

lemma randFloat_RAND_MAX:
  "randFloat 2147483647 (7516193 / 1073741824) (rng_const 2147483647) =
     (15032387 / 2147483648, rng_const 2147483647)"
  "randFloat 2147483647 1 (rng_const 2147483647) = (1, rng_const 2147483647)"
  "randFloat 2147483647 MAXSPED (rng_const 2147483647) = (5368709 / 1073741824, rng_const 2147483647)"
proof -
  have x: "to_float (7516193 / 1073741824) = 7516193 / 1073741824"
    using to_float_at[of "- 8" "7516193 / 1073741824"] by (simp add: rne_def Let_def powr_neg_numeral)
  have q1: "to_float (2147483648 / (7516193 / 1073741824)) = 306783354880"
    using to_float_at[of 38 "2147483648 / (7516193 / 1073741824)"]
    by (simp add: rne_def Let_def powr_neg_numeral)
  have q2: "to_float (2147483648 / 306783354880) = 15032387 / 2147483648"
    using to_float_at[of "- 8" "2147483648 / 306783354880"]
    by (simp add: rne_def Let_def powr_neg_numeral)
  have "randFloat 2147483647 (7516193 / 1073741824) (rng_const 2147483647) =
          (to_float (to_float 2147483647 / to_float (to_float 2147483647 / to_float (7516193 / 1073741824))),
           rng_const 2147483647)"
    by (simp add: randFloat_def rand_const)
  then show "randFloat 2147483647 (7516193 / 1073741824) (rng_const 2147483647) =
     (15032387 / 2147483648, rng_const 2147483647)"
    unfolding to_float_RAND_MAX x q1 q2 .
  have "randFloat 2147483647 1 (rng_const 2147483647) =
          (to_float (to_float 2147483647 / to_float (to_float 2147483647 / to_float 1)), rng_const 2147483647)"
    by (simp add: randFloat_def rand_const)
  then show "randFloat 2147483647 1 (rng_const 2147483647) = (1, rng_const 2147483647)"
    unfolding to_float_RAND_MAX to_float_1 by (simp add: to_float_2_31)
  have s1: "to_float (2147483648 / (5368709 / 1073741824)) = 429496729600"
    using to_float_at[of 38 "2147483648 / (5368709 / 1073741824)"]
    by (simp add: rne_def Let_def powr_neg_numeral)
  have s2: "(2147483648 :: real) / 429496729600 = 1 / 200" by simp
  have "randFloat 2147483647 MAXSPED (rng_const 2147483647) =
          (to_float (to_float 2147483647 / to_float (to_float 2147483647 / to_float (5 / 1000))),
           rng_const 2147483647)"
    by (simp add: randFloat_def rand_const MAXSPED_def)
  also have "to_float (5 / 1000) = 5368709 / 1073741824" using to_float_1_200 by simp
  finally show "randFloat 2147483647 MAXSPED (rng_const 2147483647) =
      (5368709 / 1073741824, rng_const 2147483647)"
    unfolding to_float_RAND_MAX s1 s2 to_float_1_200 .
qed

lemma push_wave_RAND_MAX:
  assumes "maxA w = 7516193 / 1073741824"
  shows "push_wave 2147483647 i (w, rng_const 2147483647) =
           Inr (w\<lparr>Ai := Ai w @ [15032387 / 2147483648], wi := wi w @ [1], Di := Di w @ [Vec2 1 1],
                  Si := Si w @ [8430551 / 16777216]\<rparr>, rng_const 2147483647)"
proof -
  have S: "to_float (5368709 / 1073741824 * 0.5 + MAXFREQ * 0.5) = 8430551 / 16777216"
    unfolding MAXFREQ_def by (rule to_float_Si_RAND_MAX)
  have one: "randFloat 2147483647 MAXFREQ (rng_const 2147483647) = (1, rng_const 2147483647)"
    unfolding MAXFREQ_def by (rule randFloat_RAND_MAX)
  show ?thesis
    unfolding push_wave_def assms randFloat_RAND_MAX one prod.case S
    by (simp add: MAXFREQ_def)
qed

lemma amplitude_above_maxA_waves:
  "for_loop 0 20 (push_wave 2147483647)
     (Water_init 0 0 0 50 50 500 500 (7516193 / 1073741824) 20 True True False, rng_const 2147483647) =
   Inr ((Water_init 0 0 0 50 50 500 500 (7516193 / 1073741824) 20 True True False)
          \<lparr>Ai := replicate 20 (15032387 / 2147483648), wi := replicate 20 1,
           Di := replicate 20 (Vec2 1 1), Si := replicate 20 (8430551 / 16777216)\<rparr>,
        rng_const 2147483647)"
  by (simp add: for_loop.simps push_wave_RAND_MAX Water_init_def numeral_eq_Suc)

lemma amplitude_above_maxA:
  "map_sum id Ai (Water_ctor 2147483647 (rng_const 2147483647) 0 0 0 50 50 500 500
                    (7516193 / 1073741824) 20 True True False) =
     Inr (replicate 20 (15032387 / 2147483648)) \<and>
   \<not> (15032387 / 2147483648 \<le> (7516193 / 1073741824 :: real))"
proof -
  obtain w where "Water_ctor 2147483647 (rng_const 2147483647) 0 0 0 50 50 500 500
                    (7516193 / 1073741824) 20 True True False = Inr w"
    "Ai w = replicate 20 (15032387 / 2147483648)"
    using Water_ctor_waves[OF amplitude_above_maxA_waves] by auto
  then show ?thesis by simp
qed

lemma Water_ctor_any_mode:
  "\<exists>w. Water_ctor rmax g junk px pz pw pl pdimx pdimz maxa maxi dir rnd anim = Inr w \<and>
     maxA w = maxa \<and>
     length (Ai w) = (if dir \<and> rnd then nat maxi else 0) \<and>
     length (wi w) = (if dir \<and> rnd then nat maxi else 0) \<and>
     length (Di w) = (if dir \<and> rnd then nat maxi else 0) \<and>
     length (Si w) = (if dir \<and> rnd then nat maxi else 0) \<and>
     (rand_ok rmax g \<longrightarrow> waves_in_range w)"
proof (cases "dir \<and> rnd")
  case True
  then show ?thesis
    using Water_ctor_supported[of rmax g junk px pz pw pl pdimx pdimz maxa maxi anim]
    by (auto simp: constructed_def)
next
  case False
  then show ?thesis
    unfolding Water_ctor_unsupported[OF False] using False
    by (auto simp: Water_init_def waves_in_range_def)
qed

text \<open>
  Claim C7 as stated (\<open>S\<^sub>i\<close> lies in \<open>[\<omega>_max/2, S_max]\<close>) fails: with
  \<open>\<omega>_max = MAXFREQ = 1\<close> and \<open>S_max = MAXSPED = 0.005\<close> that interval is empty.
  For the water of \<^verbatim>\<open>Kernel::start\<close>, when every \<^verbatim>\<open>rand()\<close> returns 0, every one
  of the 20 waves has \<open>S\<^sub>i = 1/2\<close>, which is above \<open>S_max\<close>.
\<close>

theorem phase_speed_above_S_max_counterexample:
  "map_sum id Si (Kernel_water 2147483647 (rng_const 0) 0) = Inr (replicate 20 (1 / 2)) \<and>
   \<not> (1 / 2 \<le> MAXSPED)"
proof -
  obtain w where "Kernel_water 2147483647 (rng_const 0) 0 = Inr w" "Si w = replicate 20 (1 / 2)"
    using Water_ctor_waves[OF Kernel_waves_rand_0] by (auto simp: Kernel_water_def)
  then show ?thesis by (simp add: MAXSPED_def)
qed

text \<open>
  Claim C7, amended. For every constructed wave set and every wave index \<open>i\<close>,
  the phase-speed constant \<open>S\<^sub>i\<close> lies in \<open>[\<omega>_max/2, \<omega>_max/2 + S_max/2]\<close>.
  (Construction always returns; the set has \<open>maxI\<close> waves in the supported mode
  and none otherwise.)
\<close>

theorem phase_speed_range:
  assumes "rand_ok rmax g"
  shows "\<exists>w. Water_ctor rmax g junk px pz pw pl pdimx pdimz maxa maxi dir rnd anim = Inr w \<and>
           length (Si w) = (if dir \<and> rnd then nat maxi else 0) \<and>
           (\<forall>s\<in>set (Si w). MAXFREQ / 2 \<le> s \<and> s \<le> MAXFREQ / 2 + MAXSPED / 2)"
  using Water_ctor_any_mode[of rmax g junk px pz pw pl pdimx pdimz maxa maxi dir rnd anim] assms
  by (auto simp: waves_in_range_def list_all_iff)

theorem phase_speed_range_witness:
  "rand_ok 2147483647 (rng_const 0) \<and>
   (\<exists>w. Water_ctor 2147483647 (rng_const 0) 0 0 0 50 50 500 500 (1 / 10) 20 True True False = Inr w \<and>
        length (Si w) = 20 \<and>
        list_all (\<lambda>s. MAXFREQ / 2 \<le> s \<and> s \<le> MAXFREQ / 2 + MAXSPED / 2) (Si w))"
proof -
  have ok: "rand_ok 2147483647 (rng_const 0)" by (simp add: rand_ok_const)
  show ?thesis
    using ok phase_speed_range[OF ok, of 0 0 0 50 50 500 500 "1 / 10" 20 True True False]
    by (simp add: list_all_iff)
qed





section \<open>Drawing\<close>

lemma draw_calls:
  "draw w = Inr (map (\<lambda>i. \<lparr>count = pDimX w, byte_offset = to_size_t (sizeof_unsigned_int * pDimX w * i)\<rparr>)
                   [0..pDimZ w - 2])"
proof -
  let ?f = "\<lambda>i. \<lparr>count = pDimX w, byte_offset = to_size_t (sizeof_unsigned_int * pDimX w * i)\<rparr>"
  let ?P = "\<lambda>k calls. calls = map ?f [0..k - 1]"
  have "\<exists>calls. for_loop 0 (pDimZ w - 1) (\<lambda>i calls. Inr (calls @ [?f i])) [] = Inr calls \<and>
          ?P (max 0 (pDimZ w - 1)) calls"
  proof (rule for_loop_rule[where P = ?P])
    show "?P 0 []" by simp
  next
    fix k and calls :: "draw_call list"
    assume "0 \<le> k" "k < pDimZ w - 1" "?P k calls"
    then show "\<exists>s'. Inr (calls @ [?f k]) = Inr s' \<and> ?P (k + 1) s'"
      by (simp add: upto_rec2[of 0 k])
  qed
  moreover have "[0..max 0 (pDimZ w - 1) - 1] = [0..pDimZ w - 2]"
    by (cases "0 \<le> pDimZ w - 1") (simp_all add: max_def)
  ultimately show ?thesis by (simp add: draw_def)
qed

text \<open>
  Claim C1 (the \<open>i\<close>-th of the \<open>Nz - 1\<close> draws consumes the \<open>2 * Nx\<close> indices at
  positions \<open>[2 * Nx * i, 2 * Nx * (i + 1))\<close>), evaluated on the water of
  \<^verbatim>\<open>Kernel::start\<close> (\<open>Nx = Nz = 500\<close>): \<^verbatim>\<open>draw\<close> issues 499 draws, but each passes
  the count \<^verbatim>\<open>pDimX\<close> and the byte offset \<^verbatim>\<open>sizeof(unsigned int) * pDimX * i\<close>, so
  draw \<open>i\<close> reads the 500 indices at positions \<open>[500 * i, 500 * (i + 1))\<close>: half
  a strip, starting in the middle of the buffer region of strip \<open>i div 2\<close>.
\<close>

theorem draw_reads_Nx_indices_per_strip:
  "\<exists>w calls. Kernel_water rmax g junk = Inr w \<and> draw w = Inr calls \<and>
     length calls = 499 \<and>
     map index_range calls = map (\<lambda>i. (nat (500 * i), nat (500 * (i + 1)))) [0..498] \<and>
     index_range (calls ! 0) = (0, 500) \<and>
     index_range (calls ! 1) = (500, 1000) \<and>
     index_range (calls ! 498) = (249000, 249500)"
proof -
  obtain w where w: "Kernel_water rmax g junk = Inr w" "constructed 0 0 50 50 500 500 (1 / 10) 20 False w"
    using Water_ctor_supported[of rmax g junk 0 0 50 50 500 500 "1 / 10" 20 False]
    by (auto simp: Kernel_water_def)
  let ?f = "\<lambda>i. \<lparr>count = 500, byte_offset = to_size_t (sizeof_unsigned_int * 500 * i)\<rparr>"
  have d: "draw w = Inr (map ?f [0..498])"
    using w(2) by (simp add: draw_calls constructed_def)
  have r: "index_range (?f i) = (nat (500 * i), nat (500 * (i + 1)))" if "0 \<le> i" "i \<le> 498" for i
  proof -
    have "(2000 * i) mod 2 ^ 64 = 2000 * i" using that by (intro mod_pos_pos_trivial) simp_all
    moreover have "nat (2000 * i) div 4 = nat (500 * i)" using that by linarith
    moreover have "nat (500 * i) + 500 = nat (500 * (i + 1))"
      using that by (simp add: nat_add_distrib distrib_left)
    ultimately show ?thesis
      by (simp add: index_range_def to_size_t_def sizeof_unsigned_int_def)
  qed
  have m: "map index_range (map ?f [0..498]) = map (\<lambda>i. (nat (500 * i), nat (500 * (i + 1)))) [0..498]"
    using r by simp
  have n: "map ?f [0..498] ! k = ?f (int k)" if "k \<le> 498" for k
    using that by simp
  show ?thesis
    using w(1) d m r[of 0] r[of 1] r[of 498] n[of 0] n[of 1] n[of 498]
    by (intro exI[of _ w] exI[of _ "map ?f [0..498]"]) (simp del: upto_rec_numeral)
qed

section \<open>updateMesh\<close>

lemma updateMesh_ok:
  assumes "waves_ok w"
  shows "\<exists>vs. updateMesh w = Inr (w\<lparr>vertices := vs, indices := [],
                                     VBO_data := glBufferSubData (VBO_data w) vs\<rparr>) \<and>
           length vs = 6 * nat (pDimX w) * nat (pDimZ w)"
proof -
  let ?w = "w\<lparr>vertices := [], indices := []\<rparr>"
  have ok: "waves_ok ?w" using assms by (simp add: waves_ok_def)
  have same: "?w\<lparr>vertices := []\<rparr> = ?w" by simp
  obtain vs where vs: "length vs = 6 * nat (pDimX ?w) * nat (pDimZ ?w)"
    "vertex_loops (?w\<lparr>vertices := []\<rparr>) = Inr (?w\<lparr>vertices := [] @ vs\<rparr>)"
    using vertex_loops_ok[OF ok] by blast
  have "vertex_loops ?w = Inr (?w\<lparr>vertices := vs\<rparr>)"
    using vs(2) unfolding same by simp
  then have "updateMesh w = Inr (w\<lparr>vertices := vs, indices := [],
                                   VBO_data := glBufferSubData (VBO_data w) vs\<rparr>)"
    by (simp add: updateMesh_def)
  then show ?thesis using vs(1) by auto
qed

lemma reachable_invariant:
  assumes "reachable w0 w" "waves_ok w0"
  shows "waves_ok w \<and> EBO_data w = EBO_data w0"
  using assms
proof (induction rule: reachable.induct)
  case reach_start
  then show ?case by simp
next
  case (reach_time w dT)
  then show ?case by (simp add: updateTime_def waves_ok_def)
next
  case (reach_mesh w w')
  then have ok: "waves_ok w" and e: "EBO_data w = EBO_data w0" by simp_all
  obtain vs where "updateMesh w = Inr (w\<lparr>vertices := vs, indices := [],
                                         VBO_data := glBufferSubData (VBO_data w) vs\<rparr>)"
    using updateMesh_ok[OF ok] by blast
  then have "w' = w\<lparr>vertices := vs, indices := [], VBO_data := glBufferSubData (VBO_data w) vs\<rparr>"
    using reach_mesh.hyps(2) by simp
  then show ?case using ok e by (simp add: waves_ok_def)
qed

lemma Water_ctor_result:
  assumes "Water_ctor rmax g junk px pz pw pl pdimx pdimz maxa maxi True True anim = Inr w"
  shows "constructed px pz pw pl pdimx pdimz maxa maxi anim w"
  using Water_ctor_supported[of rmax g junk px pz pw pl pdimx pdimz maxa maxi anim] assms by auto

lemma constructed_waves_ok: "constructed px pz pw pl pdimx pdimz maxa maxi anim w \<Longrightarrow> waves_ok w"
  by (simp add: constructed_def waves_ok_def)

text \<open>
  The index sequence lives in two places: in the vector \<^verbatim>\<open>indices\<close> of the object
  and, after \<^verbatim>\<open>setupMesh\<close>, in the element buffer on the GPU, from which
  \<^verbatim>\<open>draw\<close> reads. \<^verbatim>\<open>updateMesh\<close> starts with \<^verbatim>\<open>indices.clear()\<close> and never refills
  the vector, so only the element buffer keeps the sequence.
\<close>

lemma updateMesh_clears_indices_vector:
  "Water_ctor 32767 (rng_const 0) 0 0 0 50 50 2 2 (1 / 10) 1 True True False = Inr example_water \<and>
   indices example_water = [0, 2, 1, 3] \<and>
   map_sum id indices (updateMesh example_water) = Inr []"
proof -
  have "waves_ok example_water" by (simp add: example_water_def waves_ok_def)
  from updateMesh_ok[OF this] show ?thesis
    by (auto simp: example_water_constructed) (simp add: example_water_def)
qed

text \<open>
  Claim C6. For every call of \<^verbatim>\<open>updateMesh\<close> after construction (in any state
  reached by time advances and earlier mesh updates), the call returns and the
  index buffer, which is the element buffer on the GPU, is left untouched: it
  still holds the index sequence built at construction. (The vector
  \<^verbatim>\<open>indices\<close> of the object, which nothing reads after \<^verbatim>\<open>setupMesh\<close>, is left
  empty.)
\<close>

theorem updateMesh_keeps_element_buffer:
  assumes "Water_ctor rmax g junk px pz pw pl pdimx pdimz maxa maxi True True anim = Inr w0"
    and "reachable w0 w"
  shows "\<exists>w'. updateMesh w = Inr w' \<and> EBO_data w' = Some (indices w0) \<and> indices w' = []"
proof -
  have c: "constructed px pz pw pl pdimx pdimz maxa maxi anim w0"
    using assms(1) by (rule Water_ctor_result)
  have inv: "waves_ok w" "EBO_data w = EBO_data w0"
    using reachable_invariant[OF assms(2) constructed_waves_ok[OF c]] by simp_all
  obtain vs where "updateMesh w = Inr (w\<lparr>vertices := vs, indices := [],
                                         VBO_data := glBufferSubData (VBO_data w) vs\<rparr>)"
    using updateMesh_ok[OF inv(1)] by blast
  then show ?thesis using inv(2) c by (simp add: constructed_def)
qed

theorem updateMesh_keeps_element_buffer_witness:
  "Water_ctor 32767 (rng_const 0) 0 0 0 50 50 2 2 (1 / 10) 1 True True False = Inr example_water \<and>
   reachable example_water (updateTime example_water (1 / 60)) \<and>
   (\<exists>w'. updateMesh (updateTime example_water (1 / 60)) = Inr w' \<and>
         EBO_data w' = Some [0, 2, 1, 3] \<and> indices w' = [])"
proof -
  have r: "reachable example_water (updateTime example_water (1 / 60))"
    by (intro reach_time reach_start)
  have i: "indices example_water = [0, 2, 1, 3]" by (simp add: example_water_def)
  show ?thesis
    using updateMesh_keeps_element_buffer[OF example_water_constructed r] r
    by (simp add: example_water_constructed i)
qed


section \<open>The normal map\<close>

lemma encode_component_error: "encode_component c = Inl e \<Longrightarrow> e = ConversionOutOfRange"
  by (simp add: encode_component_def float_to_unsigned_char_def split: if_splits)

lemma encode_component_one: "encode_component 1 = Inl ConversionOutOfRange"
  by (simp add: encode_component_def float_to_unsigned_char_def c_trunc_def)

lemma encode_component_in_range:
  assumes "- 1 \<le> c" "c < 1"
  shows "encode_component c = Inr (nat \<lfloor>(c / 2 + 0.5) * 256\<rfloor>)"
proof -
  define r where "r = (c / 2 + 0.5) * 256"
  have r: "0 \<le> r" "r < 256" using assms by (simp_all add: r_def)
  then have "0 \<le> \<lfloor>r\<rfloor>" "\<lfloor>r\<rfloor> < 256"
    by (simp_all add: floor_less_iff)
  then have "float_to_unsigned_char r = Inr (nat \<lfloor>r\<rfloor>)"
    using r(1) by (simp add: float_to_unsigned_char_def c_trunc_def)
  then show ?thesis by (simp add: encode_component_def r_def)
qed

text \<open>On flat water the texel is \<open>(128, 128, \<dots>)\<close>; the third channel has no byte.\<close>

lemma flat_water_texel:
  "N example_water (- 25) (- 25) 0 = Inr (Vec3 0 0 1) \<and>
   map encode_component [0, 0, 1] = [Inr 128, Inr 128, Inl ConversionOutOfRange]"
  by (simp add: example_water_def N_def ddxH_def ddyH_def ddxW_def ddyW_def vector_at_def for_loop.simps
      encode_component_def float_to_unsigned_char_def c_trunc_def)

lemma store_normal_undefined:
  assumes "waves_ok w"
  shows "store_normal w px pz pw pl pdimX pdimZ i j data = Inl ConversionOutOfRange"
proof -
  let ?x = "real_of_int (px - c_div pw 2) + real_of_int i * real_of_int pw / real_of_int pdimX"
  let ?z = "real_of_int (pz - c_div pl 2) + real_of_int j * real_of_int pl / real_of_int pdimZ"
  obtain hx hy where n: "N w ?x ?z 0 = Inr (Vec3 hx hy 1)" using N_ok[OF assms] by blast
  show ?thesis
    unfolding store_normal_def Let_def n
    by (auto simp: encode_component_one split: sum.splits dest: encode_component_error)
qed

lemma normal_loops_undefined:
  assumes "waves_ok w" "0 < pdimX" "0 < pdimZ"
  shows "normal_loops w px pz pw pl pdimX pdimZ raw = Inl ConversionOutOfRange"
  unfolding normal_loops_def
  by (intro for_loop_fail assms(2,3) store_normal_undefined[OF assms(1)])

text \<open>
  Claim C4 (each stored byte is \<open>floor((component/2 + 0.5) * 256)\<close>, and an encoded
  value of exactly 256 saturates to 255), evaluated on the water of
  \<^verbatim>\<open>Kernel::start\<close>: at every sample the normal is \<open>(-\<partial>H/\<partial>x, -\<partial>H/\<partial>z, 1)\<close>, so the
  third component encodes to exactly 256 at every texel. The code has no clamp:
  it converts the \<^verbatim>\<open>double\<close> 256 to \<^verbatim>\<open>unsigned char\<close>, which cannot hold it, so no
  byte 255 is stored and the loop that fills the texture has no defined result.
  (Components in \<open>[-1, 1)\<close> are encoded as the claim says, lemma
  \<open>encode_component_in_range\<close>.)
\<close>

theorem NormalMap_z_byte_not_representable:
  "\<exists>w hx hy. Kernel_water rmax g junk = Inr w \<and>
     N w x z 0 = Inr (Vec3 hx hy 1) \<and>
     encode_component (v3z (Vec3 hx hy 1)) = Inl ConversionOutOfRange \<and>
     Kernel_data w raw = Inl ConversionOutOfRange"
proof -
  obtain w where w: "Kernel_water rmax g junk = Inr w" "constructed 0 0 50 50 500 500 (1 / 10) 20 False w"
    using Water_ctor_supported[of rmax g junk 0 0 50 50 500 500 "1 / 10" 20 False]
    by (auto simp: Kernel_water_def)
  have ok: "waves_ok w" using w(2) by (rule constructed_waves_ok)
  obtain hx hy where n: "N w x z 0 = Inr (Vec3 hx hy 1)" using N_ok[OF ok] by blast
  have "Kernel_data w raw = Inl ConversionOutOfRange"
    unfolding Kernel_data_def by (rule normal_loops_undefined[OF ok]) simp_all
  then show ?thesis using w(1) n by (simp add: encode_component_one)
qed

section \<open>The refraction texture\<close>

lemma c_trunc_bounds:
  assumes "- 256 < r" "r \<le> 256"
  shows "- 256 \<le> c_trunc r" "c_trunc r \<le> 256"
  using assms by (simp_all add: c_trunc_def le_floor_iff floor_le_iff ceiling_le_iff le_ceiling_iff)

lemma refract_val_ok: "\<exists>val. refract_val pdimX pdimZ i j = Inr val"
proof -
  let ?dx = "real_of_int \<bar>c_div pdimX 2 - i\<bar> / real_of_int pdimX * 2"
  let ?dy = "real_of_int \<bar>c_div pdimZ 2 - j\<bar> / real_of_int pdimZ * 2"
  let ?d = "sqrt (?dx * ?dx + ?dy * ?dy)"
  have d0: "0 \<le> ?d" by simp
  show ?thesis
  proof (cases "1 - ?d > 0")
    case True
    then have "- 256 < (1 - 2 * ?d) * 256" "(1 - 2 * ?d) * 256 \<le> 256" using d0 by simp_all
    from c_trunc_bounds[OF this] show ?thesis
      using True by (simp add: refract_val_def Let_def float_to_int_def)
  next
    case False
    then show ?thesis by (simp add: refract_val_def Let_def)
  qed
qed


subsection \<open>Arrays written texel by texel\<close>

lemma texel_offset:
  assumes "0 \<le> i" "0 \<le> j" "0 \<le> nz"
  shows "nat (i * nz * 3 + j * 3 + int c) = 3 * nat (i * nz + j) + c"
proof -
  have "0 \<le> i * nz + j" using assms by simp
  then have "int (3 * nat (i * nz + j) + c) = i * nz * 3 + j * 3 + int c" by (simp add: algebra_simps)
  then show ?thesis by (metis nat_int)
qed

lemma texel_write:
  assumes old: "\<forall>q'<q. \<forall>c<3. arr ! (3 * q' + c) = F q' c" and fits: "3 * q + 2 < length arr"
  shows "\<forall>q'<Suc q. \<forall>c<3. arr[3 * q := F q 0, 3 * q + 1 := F q 1, 3 * q + 2 := F q 2] ! (3 * q' + c) = F q' c"
proof (intro allI impI)
  fix q' c :: nat assume q': "q' < Suc q" and c: "c < 3"
  let ?arr = "arr[3 * q := F q 0, 3 * q + 1 := F q 1, 3 * q + 2 := F q 2]"
  show "?arr ! (3 * q' + c) = F q' c"
  proof (cases "q' = q")
    case True
    consider "c = 0" | "c = 1" | "c = 2" using c by linarith
    then show ?thesis using fits True by cases simp_all
  next
    case False
    then have "q' < q" using q' by simp
    then have "3 * q' + c < 3 * q" using c by simp
    then have "?arr ! (3 * q' + c) = arr ! (3 * q' + c)" by simp
    then show ?thesis using old \<open>q' < q\<close> c by simp
  qed
qed

lemma texel_row:
  assumes body: "\<And>j arr. 0 \<le> j \<Longrightarrow> j < nz \<Longrightarrow>
            body j arr = Inr (arr[nat (i * nz * 3 + j * 3 + 0) := f j 0,
                                  nat (i * nz * 3 + j * 3 + 1) := f j 1,
                                  nat (i * nz * 3 + j * 3 + 2) := f j 2])"
    and F: "\<And>j c. 0 \<le> j \<Longrightarrow> j < nz \<Longrightarrow> F (nat (i * nz + j)) c = f j c"
    and i: "0 \<le> i" "i < nx" and nz: "0 < nz"
    and len: "length arr = nat (nx * nz * 3)"
    and old: "\<forall>q<nat (i * nz). \<forall>c<3. arr ! (3 * q + c) = F q c"
  shows "\<exists>r. for_loop 0 nz body arr = Inr r \<and> length r = length arr \<and>
           (\<forall>q<nat ((i + 1) * nz). \<forall>c<3. r ! (3 * q + c) = F q c)"
proof -
  let ?P = "\<lambda>k r. length r = length arr \<and> (\<forall>q<nat (i * nz + k). \<forall>c<3. r ! (3 * q + c) = F q c)"
  have "\<exists>r. for_loop 0 nz body arr = Inr r \<and> ?P (max 0 nz) r"
  proof (rule for_loop_rule[where P = ?P])
    show "?P 0 arr" using old by simp
  next
    fix k r assume k: "0 \<le> k" "k < nz" and P: "?P k r"
    let ?q = "nat (i * nz + k)"
    have off: "nat (i * nz * 3 + k * 3 + 0) = 3 * ?q" "nat (i * nz * 3 + k * 3 + 1) = 3 * ?q + 1"
      "nat (i * nz * 3 + k * 3 + 2) = 3 * ?q + 2"
      using texel_offset[OF i(1) k(1), of nz 0] texel_offset[OF i(1) k(1), of nz 1]
        texel_offset[OF i(1) k(1), of nz 2] nz by simp_all
    have "i * nz + k < (i + 1) * nz" using k(2) by (simp add: algebra_simps)
    also have "\<dots> \<le> nx * nz" using i(2) nz by (intro mult_right_mono) simp_all
    finally have "i * nz + k < nx * nz" .
    moreover have "0 \<le> i * nz + k" using i(1) k(1) nz by simp
    ultimately have fits: "3 * ?q + 2 < length r" using P len by linarith
    have suc: "nat (i * nz + (k + 1)) = Suc ?q" using \<open>0 \<le> i * nz + k\<close> by linarith
    have Fq: "F ?q c = f k c" for c using F[OF k] .
    have "\<forall>q'<Suc ?q. \<forall>c<3. r[3 * ?q := F ?q 0, 3 * ?q + 1 := F ?q 1, 3 * ?q + 2 := F ?q 2] ! (3 * q' + c) = F q' c"
      using P fits by (intro texel_write) simp_all
    then show "\<exists>r'. body k r = Inr r' \<and> ?P (k + 1) r'"
      using P unfolding body[OF k] off suc Fq by simp
  qed
  moreover have "i * nz + max 0 nz = (i + 1) * nz" using nz by (simp add: algebra_simps)
  ultimately show ?thesis by simp
qed

lemma texture_loops:
  assumes body: "\<And>i j arr. 0 \<le> i \<Longrightarrow> i < nx \<Longrightarrow> 0 \<le> j \<Longrightarrow> j < nz \<Longrightarrow>
            body i j arr = Inr (arr[nat (i * nz * 3 + j * 3 + 0) := f i j 0,
                                    nat (i * nz * 3 + j * 3 + 1) := f i j 1,
                                    nat (i * nz * 3 + j * 3 + 2) := f i j 2])"
    and nz: "0 < nz" and len: "length raw = nat (nx * nz * 3)"
  shows "\<exists>r. for_loop 0 nx (\<lambda>i. for_loop 0 nz (body i)) raw = Inr r \<and> length r = length raw \<and>
           (\<forall>i j c. 0 \<le> i \<longrightarrow> i < nx \<longrightarrow> 0 \<le> j \<longrightarrow> j < nz \<longrightarrow> c < 3 \<longrightarrow>
              r ! (nat (i * nz * 3 + j * 3) + c) = f i j c)"
proof -
  define F where "F q c = f (int q div nz) (int q mod nz) c" for q c
  have F: "F (nat (i * nz + j)) c = f i j c" if "0 \<le> i" "0 \<le> j" "j < nz" for i j c
  proof -
    have "0 \<le> i * nz + j" using that nz by simp
    then have "int (nat (i * nz + j)) = j + i * nz" by simp
    moreover have "(j + i * nz) div nz = i" "(j + i * nz) mod nz = j" using that nz by simp_all
    ultimately show ?thesis by (simp add: F_def)
  qed
  let ?P = "\<lambda>k r. length r = length raw \<and> (\<forall>q<nat (k * nz). \<forall>c<3. r ! (3 * q + c) = F q c)"
  have "\<exists>r. for_loop 0 nx (\<lambda>i. for_loop 0 nz (body i)) raw = Inr r \<and> ?P (max 0 nx) r"
  proof (rule for_loop_rule[where P = ?P])
    show "?P 0 raw" by simp
  next
    fix k r assume k: "0 \<le> k" "k < nx" and P: "?P k r"
    have "\<exists>r'. for_loop 0 nz (body k) r = Inr r' \<and> length r' = length r \<and>
            (\<forall>q<nat ((k + 1) * nz). \<forall>c<3. r' ! (3 * q + c) = F q c)"
    proof (rule texel_row[where f = "f k" and nx = nx])
      show "body k j arr = Inr (arr[nat (k * nz * 3 + j * 3 + 0) := f k j 0,
              nat (k * nz * 3 + j * 3 + 1) := f k j 1, nat (k * nz * 3 + j * 3 + 2) := f k j 2])"
        if "0 \<le> j" "j < nz" for j arr using body[OF k that] .
      show "F (nat (k * nz + j)) c = f k j c" if "0 \<le> j" "j < nz" for j c using F[OF k(1) that] .
    qed (use k nz P len in simp_all)
    then show "\<exists>r'. for_loop 0 nz (body k) r = Inr r' \<and> ?P (k + 1) r'" using P by auto
  qed
  then obtain r where r: "for_loop 0 nx (\<lambda>i. for_loop 0 nz (body i)) raw = Inr r"
    "length r = length raw" "\<forall>q<nat (max 0 nx * nz). \<forall>c<3. r ! (3 * q + c) = F q c" by blast
  have "r ! (nat (i * nz * 3 + j * 3) + c) = f i j c"
    if "0 \<le> i" "i < nx" "0 \<le> j" "j < nz" "c < 3" for i j c
  proof -
    have "i * nz + j < (i + 1) * nz" using that by (simp add: algebra_simps)
    also have "\<dots> \<le> max 0 nx * nz" using that nz by (intro mult_right_mono) simp_all
    finally have "nat (i * nz + j) < nat (max 0 nx * nz)" using that nz by simp
    then have "r ! (3 * nat (i * nz + j) + c) = F (nat (i * nz + j)) c" using r(3) that(5) by simp
    moreover have "nat (i * nz * 3 + j * 3) = 3 * nat (i * nz + j)"
      using texel_offset[OF that(1,3), of nz 0] nz by simp
    ultimately show ?thesis using F[OF that(1,3,4)] by simp
  qed
  then show ?thesis using r(1,2) by blast
qed


lemma refract_loops_texel:
  assumes "0 < pdimZ" "length raw = nat (pdimX * pdimZ * 3)"
  shows "\<exists>r. refract_loops pdimX pdimZ raw = Inr r \<and> length r = length raw \<and>
           (\<forall>i j c. 0 \<le> i \<longrightarrow> i < pdimX \<longrightarrow> 0 \<le> j \<longrightarrow> j < pdimZ \<longrightarrow> c < 3 \<longrightarrow>
              (\<exists>val. refract_val pdimX pdimZ i j = Inr val \<and>
                     r ! (nat (i * pdimZ * 3 + j * 3) + c) = int_to_unsigned_char val))"
proof -
  let ?f = "\<lambda>i j (c::nat). int_to_unsigned_char (projr (refract_val pdimX pdimZ i j))"
  have "\<exists>r. for_loop 0 pdimX (\<lambda>i. for_loop 0 pdimZ (store_refract pdimX pdimZ i)) raw = Inr r \<and>
          length r = length raw \<and>
          (\<forall>i j c. 0 \<le> i \<longrightarrow> i < pdimX \<longrightarrow> 0 \<le> j \<longrightarrow> j < pdimZ \<longrightarrow> c < 3 \<longrightarrow>
             r ! (nat (i * pdimZ * 3 + j * 3) + c) = ?f i j c)"
  proof (rule texture_loops[where f = ?f, OF _ assms])
    fix i j arr
    obtain val where "refract_val pdimX pdimZ i j = Inr val" using refract_val_ok by blast
    then show "store_refract pdimX pdimZ i j arr =
        Inr (arr[nat (i * pdimZ * 3 + j * 3 + 0) := ?f i j 0, nat (i * pdimZ * 3 + j * 3 + 1) := ?f i j 1,
                 nat (i * pdimZ * 3 + j * 3 + 2) := ?f i j 2])"
      by (simp add: store_refract_def)
  qed
  then obtain r where r: "refract_loops pdimX pdimZ raw = Inr r" "length r = length raw"
    "\<And>i j c. 0 \<le> i \<Longrightarrow> i < pdimX \<Longrightarrow> 0 \<le> j \<Longrightarrow> j < pdimZ \<Longrightarrow> c < 3 \<Longrightarrow>
       r ! (nat (i * pdimZ * 3 + j * 3) + c) = ?f i j c"
    unfolding refract_loops_def by blast
  have "\<exists>val. refract_val pdimX pdimZ i j = Inr val \<and>
          r ! (nat (i * pdimZ * 3 + j * 3) + c) = int_to_unsigned_char val"
    if "0 \<le> i" "i < pdimX" "0 \<le> j" "j < pdimZ" "c < 3" for i j c
  proof -
    obtain val where "refract_val pdimX pdimZ i j = Inr val" using refract_val_ok by blast
    then show ?thesis using r(3)[OF that] by simp
  qed
  then show ?thesis using r(1,2) by blast
qed

lemma refract_val_centre: "refract_val 500 500 250 250 = Inr 256"
  by (simp add: refract_val_def c_div_def float_to_int_def c_trunc_def)

lemma refract_val_beside_centre: "refract_val 500 500 250 249 = Inr 253"
proof -
  have sq: "sqrt (1 / 62500) = 1 / 250"
    by (rule real_sqrt_unique) (simp_all add: power2_eq_square)
  show ?thesis
    by (simp add: refract_val_def c_div_def float_to_int_def c_trunc_def Let_def sq)
qed

lemma refract_val_ring: "refract_val 500 500 100 250 = Inr (- 51)"
proof -
  have sq: "sqrt (9 / 25) = 3 / 5"
    by (rule real_sqrt_unique) (simp_all add: power2_eq_square)
  show ?thesis
    by (simp add: refract_val_def c_div_def float_to_int_def c_trunc_def Let_def sq)
qed

text \<open>
  Claim C2 (all three channel bytes of texel \<open>(i, j)\<close> equal
  \<open>max(0, floor((1 - 2d) * 256))\<close>; every texel with \<open>d \<ge> 0.5\<close> stores zero and the
  centre texel stores the largest value), evaluated on the 500 by 500 texture
  of \<^verbatim>\<open>Kernel::start\<close>, whatever the array held before:
  \<^item> the centre texel \<open>(250, 250)\<close> has \<open>d = 0\<close> and \<^verbatim>\<open>val = 256\<close>, which the
    conversion to \<^verbatim>\<open>unsigned char\<close> turns into the byte 0;
  \<^item> its neighbour \<open>(250, 249)\<close> stores 253, more than the centre;
  \<^item> texel \<open>(100, 250)\<close> has \<open>d = 0.6 \<ge> 0.5\<close>; the guard \<^verbatim>\<open>1 - distance > 0\<close> lets
    it through, \<^verbatim>\<open>val = -51\<close>, and the byte stored is 205, not 0.
\<close>

theorem refraction_texture_wraps:
  assumes "length raw = 750000"
  shows "\<exists>r. Kernel_refract raw = Inr r \<and>
           refract_val 500 500 250 250 = Inr 256 \<and>
           r ! (250 * (500 * 3) + 250 * 3 + 0) = 0 \<and>
           r ! (250 * (500 * 3) + 250 * 3 + 1) = 0 \<and>
           r ! (250 * (500 * 3) + 250 * 3 + 2) = 0 \<and>
           refract_val 500 500 250 249 = Inr 253 \<and>
           r ! (250 * (500 * 3) + 249 * 3 + 0) = 253 \<and>
           refract_val 500 500 100 250 = Inr (- 51) \<and>
           r ! (100 * (500 * 3) + 250 * 3 + 0) = 205 \<and>
           r ! (100 * (500 * 3) + 250 * 3 + 1) = 205 \<and>
           r ! (100 * (500 * 3) + 250 * 3 + 2) = 205"
proof -
  have len: "length raw = nat (500 * 500 * 3)" using assms by simp
  obtain r where r: "refract_loops 500 500 raw = Inr r"
    "\<And>i j c. 0 \<le> i \<Longrightarrow> i < 500 \<Longrightarrow> 0 \<le> j \<Longrightarrow> j < 500 \<Longrightarrow> c < 3 \<Longrightarrow>
       \<exists>val. refract_val 500 500 i j = Inr val \<and>
             r ! (nat (i * 500 * 3 + j * 3) + c) = int_to_unsigned_char val"
    using refract_loops_texel[of 500 raw 500, OF _ len] by auto
  have centre: "r ! (nat (250 * 500 * 3 + 250 * 3) + c) = 0" if "c < 3" for c
    using r(2)[of 250 250 c] that by (simp add: refract_val_centre int_to_unsigned_char_def)
  have beside: "r ! (nat (250 * 500 * 3 + 249 * 3) + c) = 253" if "c < 3" for c
    using r(2)[of 250 249 c] that by (simp add: refract_val_beside_centre int_to_unsigned_char_def)
  have ring: "r ! (nat (100 * 500 * 3 + 250 * 3) + c) = 205" if "c < 3" for c
    using r(2)[of 100 250 c] that by (simp add: refract_val_ring int_to_unsigned_char_def)
  show ?thesis
    using r(1) centre[of 0] centre[of 1] centre[of 2] beside[of 0] ring[of 0] ring[of 1] ring[of 2]
    by (simp add: Kernel_refract_def refract_val_centre refract_val_beside_centre refract_val_ring)
qed

theorem refraction_texture_wraps_witness:
  "length (replicate 750000 (0::nat)) = 750000 \<and>
   (\<exists>r. Kernel_refract (replicate 750000 0) = Inr r \<and>
        r ! (250 * (500 * 3) + 250 * 3 + 0) = 0 \<and>
        r ! (250 * (500 * 3) + 249 * 3 + 0) = 253 \<and>
        r ! (100 * (500 * 3) + 250 * 3 + 0) = 205)"
proof -
  have len: "length (replicate 750000 (0::nat)) = 750000" by simp
  from refraction_texture_wraps[OF len] show ?thesis using len by blast
qed


section \<open>Vertex positions\<close>

text \<open>
  Claim C5 (the vertex written for \<open>(i, j)\<close> has \<open>x = cx - W/2 + i * W/Nx\<close>,
  \<open>z = cz - L/2 + j * L/Nz\<close>, \<open>y = H(x, z, t)\<close>), evaluated for a patch of odd width
  and length, \<open>W = L = 5\<close>, centred at the origin and sampled 2 by 2 (every
  \<^verbatim>\<open>rand()\<close> returning 0, so the surface is flat): \<^verbatim>\<open>pW / 2\<close> is the integer 2,
  and the vertices start at \<open>x = z = -2\<close> where the claim has \<open>-2.5\<close>; the four
  positions are \<open>(-2, -2)\<close>, \<open>(-2, 1/2)\<close>, \<open>(1/2, -2)\<close>, \<open>(1/2, 1/2)\<close> instead of
  \<open>(-2.5, -2.5)\<close>, \<open>(-2.5, 0)\<close>, \<open>(0, -2.5)\<close>, \<open>(0, 0)\<close>.
\<close>

theorem odd_width_vertex_positions:
  "map_sum id vertices (Water_ctor 32767 (rng_const 0) 0 0 0 5 5 2 2 (1 / 10) 1 True True False) =
     Inr [- 2, 0, - 2, 0, 0, 1,
          - 2, 0, 1 / 2, 0, 0, 1,
          1 / 2, 0, - 2, 0, 0, 1,
          1 / 2, 0, 1 / 2, 0, 0, 1]"
  by (simp add: eval_defs for_loop.simps)



lemma W_vertices [simp]:
  "W (w\<lparr>vertices := vs\<rparr>) = W w" "ddxW (w\<lparr>vertices := vs\<rparr>) = ddxW w" "ddyW (w\<lparr>vertices := vs\<rparr>) = ddyW w"
  by (simp_all add: W_def ddxW_def ddyW_def fun_eq_iff cong: sum.case_cong)

lemma H_vertices [simp]:
  "H (w\<lparr>vertices := vs\<rparr>) = H w" "ddxH (w\<lparr>vertices := vs\<rparr>) = ddxH w"
  "ddyH (w\<lparr>vertices := vs\<rparr>) = ddyH w"
  by (simp_all add: H_def ddxH_def ddyH_def fun_eq_iff)

lemma N_vertices [simp]: "N (w\<lparr>vertices := vs\<rparr>) = N w"
  by (simp add: N_def fun_eq_iff cong: sum.case_cong)

lemma vertex_data_vertices [simp]: "vertex_data (w\<lparr>vertices := vs\<rparr>) = vertex_data w"
  by (simp add: vertex_data_def sample_x_def sample_z_def fun_eq_iff)

lemma length_vertex_data [simp]: "length (vertex_data w i j) = 6"
  by (simp add: vertex_data_def Let_def)

lemma push_vertex_exact:
  assumes "waves_ok w"
  shows "push_vertex i j (w\<lparr>vertices := vs\<rparr>) = Inr (w\<lparr>vertices := vs @ vertex_data w i j\<rparr>)"
proof -
  obtain y where y: "H w (sample_x w i) (sample_z w j) (internalTime w) = Inr y"
    using H_ok[OF assms] by blast
  obtain hx hy where n: "N w (sample_x w i) (sample_z w j) (internalTime w) = Inr (Vec3 hx hy 1)"
    using N_ok[OF assms] by blast
  have s: "sample_x (w\<lparr>vertices := vs\<rparr>) i = sample_x w i" "sample_z (w\<lparr>vertices := vs\<rparr>) j = sample_z w j"
    by (simp_all add: sample_x_def sample_z_def)
  show ?thesis
    by (simp add: push_vertex_def vertex_data_def Let_def s y n)
qed

lemma slice_append:
  assumes old: "\<forall>q'<q. take 6 (drop (6 * q') v) = V q'" and len: "length v = 6 * q" and u: "length u = 6"
  shows "\<forall>q'<Suc q. take 6 (drop (6 * q') (v @ u)) = (if q' = q then u else V q')"
proof (intro allI impI)
  fix q' assume q': "q' < Suc q"
  show "take 6 (drop (6 * q') (v @ u)) = (if q' = q then u else V q')"
  proof (cases "q' = q")
    case True
    then show ?thesis using len u by simp
  next
    case False
    then have lt: "q' < q" using q' by simp
    then have "6 * q' + 6 \<le> length v" using len by simp
    then have "take 6 (drop (6 * q') (v @ u)) = take 6 (drop (6 * q') v)" by simp
    then show ?thesis using old lt False by simp
  qed
qed

lemma vertex_row_exact:
  assumes ok: "waves_ok w" and i: "0 \<le> i" and nz: "0 < nz"
    and len: "length v = 6 * nat (i * nz)"
    and old: "\<forall>q<nat (i * nz). take 6 (drop (6 * q) v) = vertex_data w (int q div nz) (int q mod nz)"
  shows "\<exists>v'. for_loop 0 nz (\<lambda>j. push_vertex i j) (w\<lparr>vertices := v\<rparr>) = Inr (w\<lparr>vertices := v'\<rparr>) \<and>
           length v' = 6 * nat ((i + 1) * nz) \<and>
           (\<forall>q<nat ((i + 1) * nz). take 6 (drop (6 * q) v') = vertex_data w (int q div nz) (int q mod nz))"
proof -
  let ?V = "\<lambda>q. vertex_data w (int q div nz) (int q mod nz)"
  let ?P = "\<lambda>k s. \<exists>v'. s = w\<lparr>vertices := v'\<rparr> \<and> length v' = 6 * nat (i * nz + k) \<and>
              (\<forall>q<nat (i * nz + k). take 6 (drop (6 * q) v') = ?V q)"
  have "\<exists>s'. for_loop 0 nz (\<lambda>j. push_vertex i j) (w\<lparr>vertices := v\<rparr>) = Inr s' \<and> ?P (max 0 nz) s'"
  proof (rule for_loop_rule[where P = ?P])
    show "?P 0 (w\<lparr>vertices := v\<rparr>)" using len old by (intro exI[of _ v]) simp
  next
    fix k s assume k: "0 \<le> k" "k < nz" and "?P k s"
    then obtain v' where v': "s = w\<lparr>vertices := v'\<rparr>" "length v' = 6 * nat (i * nz + k)"
      "\<forall>q<nat (i * nz + k). take 6 (drop (6 * q) v') = ?V q" by blast
    let ?q = "nat (i * nz + k)"
    have nn: "0 \<le> i * nz + k" using i k nz by simp
    have suc: "nat (i * nz + (k + 1)) = Suc ?q" using nn by linarith
    have "int ?q = k + i * nz" using nn by simp
    moreover have "(k + i * nz) div nz = i" "(k + i * nz) mod nz = k" using k nz by simp_all
    ultimately have Vq: "?V ?q = vertex_data w i k" by simp
    have "\<forall>q'<Suc ?q. take 6 (drop (6 * q') (v' @ vertex_data w i k)) =
            (if q' = ?q then vertex_data w i k else ?V q')"
      using v'(3,2) by (intro slice_append) simp_all
    then have new: "\<forall>q'<Suc ?q. take 6 (drop (6 * q') (v' @ vertex_data w i k)) = ?V q'"
      using Vq by simp
    show "\<exists>s'. push_vertex i k s = Inr s' \<and> ?P (k + 1) s'"
      unfolding v'(1) push_vertex_exact[OF ok] suc
      using new v'(2) by (intro exI[of _ "w\<lparr>vertices := v' @ vertex_data w i k\<rparr>"] conjI
          exI[of _ "v' @ vertex_data w i k"]) simp_all
  qed
  moreover have "i * nz + max 0 nz = (i + 1) * nz" using nz by (simp add: algebra_simps)
  ultimately show ?thesis by auto
qed

lemma vertex_loops_exact:
  assumes ok: "waves_ok w" and nz: "0 < pDimZ w"
  shows "\<exists>v. vertex_loops (w\<lparr>vertices := []\<rparr>) = Inr (w\<lparr>vertices := v\<rparr>) \<and>
           (\<forall>i j. 0 \<le> i \<longrightarrow> i < pDimX w \<longrightarrow> 0 \<le> j \<longrightarrow> j < pDimZ w \<longrightarrow>
              take 6 (drop (6 * nat (i * pDimZ w + j)) v) = vertex_data w i j)"
proof -
  let ?nz = "pDimZ w"
  let ?V = "\<lambda>q. vertex_data w (int q div ?nz) (int q mod ?nz)"
  let ?P = "\<lambda>k s. \<exists>v. s = w\<lparr>vertices := v\<rparr> \<and> length v = 6 * nat (k * ?nz) \<and>
              (\<forall>q<nat (k * ?nz). take 6 (drop (6 * q) v) = ?V q)"
  let ?body = "\<lambda>i. for_loop 0 ?nz (\<lambda>j. push_vertex i j)"
  have "\<exists>s'. for_loop 0 (pDimX w) ?body (w\<lparr>vertices := []\<rparr>) = Inr s' \<and> ?P (max 0 (pDimX w)) s'"
  proof (rule for_loop_rule[where P = ?P])
    show "?P 0 (w\<lparr>vertices := []\<rparr>)" by (intro exI[of _ "[]"]) simp
  next
    fix k s assume k: "0 \<le> k" "k < pDimX w" and "?P k s"
    then obtain v where v: "s = w\<lparr>vertices := v\<rparr>" "length v = 6 * nat (k * ?nz)"
      "\<forall>q<nat (k * ?nz). take 6 (drop (6 * q) v) = ?V q" by blast
    from vertex_row_exact[OF ok k(1) nz v(2,3)]
    show "\<exists>s'. ?body k s = Inr s' \<and> ?P (k + 1) s'" unfolding v(1) by blast
  qed
  then obtain v where v: "for_loop 0 (pDimX w) ?body (w\<lparr>vertices := []\<rparr>) = Inr (w\<lparr>vertices := v\<rparr>)"
    "\<forall>q<nat (max 0 (pDimX w) * ?nz). take 6 (drop (6 * q) v) = ?V q" by blast
  have "take 6 (drop (6 * nat (i * ?nz + j)) v) = vertex_data w i j"
    if "0 \<le> i" "i < pDimX w" "0 \<le> j" "j < ?nz" for i j
  proof -
    have nn: "0 \<le> i * ?nz + j" using that nz by simp
    have "i * ?nz + j < (i + 1) * ?nz" using that by (simp add: algebra_simps)
    also have "\<dots> \<le> max 0 (pDimX w) * ?nz" using that nz by (intro mult_right_mono) simp_all
    finally have "nat (i * ?nz + j) < nat (max 0 (pDimX w) * ?nz)"
      using nn by (simp only: nat_less_eq_zless)
    then have "take 6 (drop (6 * nat (i * ?nz + j)) v) = ?V (nat (i * ?nz + j))" using v(2) by blast
    moreover have "int (nat (i * ?nz + j)) = j + i * ?nz" using nn by simp
    moreover have "(j + i * ?nz) div ?nz = i" "(j + i * ?nz) mod ?nz = j" using that nz by simp_all
    ultimately show ?thesis by (simp only:)
  qed
  then show ?thesis using v(1) by (intro exI[of _ v]) (simp add: vertex_loops_def)
qed


lemma surface_cong:
  assumes "Ai w' = Ai w" "wi w' = wi w" "Di w' = Di w" "Si w' = Si w"
    "directional w' = directional w" "rounded w' = rounded w" "maxI w' = maxI w"
  shows "H w' = H w" "N w' = N w"
proof -
  have "W w' = W w" "ddxW w' = ddxW w" "ddyW w' = ddyW w"
    using assms by (simp_all add: W_def ddxW_def ddyW_def fun_eq_iff cong: sum.case_cong)
  then have "H w' = H w" "ddxH w' = ddxH w" "ddyH w' = ddyH w"
    using assms(7) by (simp_all add: H_def ddxH_def ddyH_def fun_eq_iff)
  then show "H w' = H w" "N w' = N w"
    by (simp_all add: N_def fun_eq_iff cong: sum.case_cong)
qed

lemma vertex_data_cong:
  assumes "Ai w' = Ai w" "wi w' = wi w" "Di w' = Di w" "Si w' = Si w"
    "directional w' = directional w" "rounded w' = rounded w" "maxI w' = maxI w"
    "internalTime w' = internalTime w"
    "pX w' = pX w" "pZ w' = pZ w" "pW w' = pW w" "pL w' = pL w" "pDimX w' = pDimX w" "pDimZ w' = pDimZ w"
  shows "vertex_data w' = vertex_data w"
  using surface_cong[OF assms(1-7)] assms(8-14)
  by (simp add: vertex_data_def sample_x_def sample_z_def fun_eq_iff)

lemma setupMesh_exact:
  assumes "waves_ok w" "vertices w = []" "indices w = []" "0 < pDimZ w"
  shows "\<exists>w'. setupMesh w = Inr w' \<and>
           (\<forall>i j. 0 \<le> i \<longrightarrow> i < pDimX w \<longrightarrow> 0 \<le> j \<longrightarrow> j < pDimZ w \<longrightarrow>
              take 6 (drop (6 * nat (i * pDimZ w + j)) (vertices w')) = vertex_data w' i j)"
proof -
  obtain v where v: "vertex_loops (w\<lparr>vertices := []\<rparr>) = Inr (w\<lparr>vertices := v\<rparr>)"
    "\<And>i j. 0 \<le> i \<Longrightarrow> i < pDimX w \<Longrightarrow> 0 \<le> j \<Longrightarrow> j < pDimZ w \<Longrightarrow>
       take 6 (drop (6 * nat (i * pDimZ w + j)) v) = vertex_data w i j"
    using vertex_loops_exact[OF assms(1,4)] by blast
  let ?w1 = "w\<lparr>vertices := v\<rparr>"
  obtain js where js: "index_loops (?w1\<lparr>indices := []\<rparr>) = Inr (?w1\<lparr>indices := js\<rparr>)"
    using index_loops_ok[of ?w1] by blast
  have w: "w\<lparr>vertices := []\<rparr> = w" using assms(2) by simp
  have w1: "?w1\<lparr>indices := []\<rparr> = ?w1" using assms(3) by simp
  let ?w' = "w\<lparr>vertices := v, indices := js, VBO_data := Some v, EBO_data := Some js\<rparr>"
  have "setupMesh w = Inr ?w'"
    using v(1) js(1) unfolding w w1 by (simp add: setupMesh_def)
  moreover have "vertex_data ?w' = vertex_data w" by (rule vertex_data_cong) simp_all
  ultimately show ?thesis using v(2) by (intro exI[of _ ?w']) simp
qed

lemma Water_ctor_vertices:
  assumes "0 < pdimz"
  shows "\<exists>w. Water_ctor rmax g junk px pz pw pl pdimx pdimz maxa maxi True True anim = Inr w \<and>
           (\<forall>i j. 0 \<le> i \<longrightarrow> i < pdimx \<longrightarrow> 0 \<le> j \<longrightarrow> j < pdimz \<longrightarrow>
              take 6 (drop (6 * nat (i * pdimz + j)) (vertices w)) = vertex_data w i j)"
proof -
  let ?w0 = "Water_init junk px pz pw pl pdimx pdimz maxa maxi True True anim"
  obtain w1 g1 where w1: "for_loop 0 maxi (push_wave rmax) (?w0, g) = Inr (w1, g1)"
    "no_waves w1 = no_waves ?w0"
    "length (Ai w1) = nat maxi" "length (wi w1) = nat maxi" "length (Di w1) = nat maxi" "length (Si w1) = nat maxi"
    using wave_loop_ok[of ?w0 maxi rmax g] by (auto simp: Water_init_def)
  note f = no_waves_fields[OF w1(2)]
  let ?w2 = "w1\<lparr>internalTime := 0\<rparr>"
  have ok: "waves_ok ?w2"
    using w1(3-6) f by (simp add: waves_ok_def Water_init_def)
  have e: "vertices ?w2 = []" "indices ?w2 = []" "0 < pDimZ ?w2" "pDimX ?w2 = pdimx" "pDimZ ?w2 = pdimz"
    using f assms by (simp_all add: Water_init_def)
  from setupMesh_exact[OF ok e(1-3)] obtain w where w: "setupMesh ?w2 = Inr w"
    "\<forall>i j. 0 \<le> i \<longrightarrow> i < pDimX ?w2 \<longrightarrow> 0 \<le> j \<longrightarrow> j < pDimZ ?w2 \<longrightarrow>
       take 6 (drop (6 * nat (i * pDimZ ?w2 + j)) (vertices w)) = vertex_data w i j"
    by blast
  have "Water_ctor rmax g junk px pz pw pl pdimx pdimz maxa maxi True True anim = Inr w"
    by (simp add: Water_ctor_def w1(1) w(1))
  then show ?thesis using w(2) unfolding e(4,5) by blast
qed

lemma vertex_data_values:
  assumes "waves_ok w"
  shows "\<exists>y n. H w (sample_x w i) (sample_z w j) (internalTime w) = Inr y \<and>
           N w (sample_x w i) (sample_z w j) (internalTime w) = Inr n \<and>
           vertex_data w i j = [sample_x w i, y, sample_z w j, v3x n, v3y n, v3z n]"
proof -
  obtain y where y: "H w (sample_x w i) (sample_z w j) (internalTime w) = Inr y"
    using H_ok[OF assms] by blast
  obtain n where n: "N w (sample_x w i) (sample_z w j) (internalTime w) = Inr n"
    using N_ok[OF assms] by blast
  show ?thesis by (simp add: vertex_data_def Let_def y n)
qed

lemma even_c_div:
  assumes "even a"
  shows "real_of_int (c_div a 2) = real_of_int a / 2"
proof -
  obtain b where a: "a = 2 * b" using assms by (elim evenE)
  have "\<bar>a\<bar> div 2 = \<bar>b\<bar>" by (simp add: a abs_mult)
  then have "c_div a 2 = b" by (auto simp: c_div_def a)
  then show ?thesis by (simp add: a)
qed

text \<open>
  Property X1. For a patch of even width and length: after construction in the supported mode, for every grid sample
  \<open>(i, j)\<close> with \<open>0 \<le> i < Nx\<close> and \<open>0 \<le> j < Nz\<close>, the six floats at offset
  \<open>6 * (i * Nz + j)\<close> of the vertex vector are \<open>x, y, z\<close> and the normal at
  \<open>(x, z)\<close> and time 0, with \<open>x = cx - W/2 + i * W/Nx\<close>, \<open>z = cz - L/2 + j * L/Nz\<close>
  and \<open>y = H(x, z, 0)\<close>.
\<close>

theorem vertex_positions_even_extent:
  assumes "Water_ctor rmax g junk px pz pw pl pdimx pdimz maxa maxi True True anim = Inr w"
    and "even pw" "even pl"
    and "0 \<le> i" "i < pdimx" "0 \<le> j" "j < pdimz"
  shows "\<exists>x y z n.
           x = real_of_int px - real_of_int pw / 2 + real_of_int i * real_of_int pw / real_of_int pdimx \<and>
           z = real_of_int pz - real_of_int pl / 2 + real_of_int j * real_of_int pl / real_of_int pdimz \<and>
           H w x z 0 = Inr y \<and> N w x z 0 = Inr n \<and>
           take 6 (drop (6 * nat (i * pdimz + j)) (vertices w)) = [x, y, z, v3x n, v3y n, v3z n]"
proof -
  have pos: "0 < pdimz" using assms(6,7) by simp
  have c: "constructed px pz pw pl pdimx pdimz maxa maxi anim w"
    using assms(1) by (rule Water_ctor_result)
  have slice: "take 6 (drop (6 * nat (i * pdimz + j)) (vertices w)) = vertex_data w i j"
  proof -
    obtain w' where w': "Water_ctor rmax g junk px pz pw pl pdimx pdimz maxa maxi True True anim = Inr w'"
      "\<forall>i j. 0 \<le> i \<longrightarrow> i < pdimx \<longrightarrow> 0 \<le> j \<longrightarrow> j < pdimz \<longrightarrow>
         take 6 (drop (6 * nat (i * pdimz + j)) (vertices w')) = vertex_data w' i j"
      using Water_ctor_vertices[OF pos] by blast
    have "w' = w" using w'(1) assms(1) by simp
    then show ?thesis using w'(2) assms(4-7) by blast
  qed
  obtain y n where yn: "H w (sample_x w i) (sample_z w j) (internalTime w) = Inr y"
    "N w (sample_x w i) (sample_z w j) (internalTime w) = Inr n"
    "vertex_data w i j = [sample_x w i, y, sample_z w j, v3x n, v3y n, v3z n]"
    using vertex_data_values[OF constructed_waves_ok[OF c]] by blast
  have x: "sample_x w i = real_of_int px - real_of_int pw / 2 + real_of_int i * real_of_int pw / real_of_int pdimx"
    using c by (simp add: sample_x_def constructed_def even_c_div[OF assms(2)])
  have z: "sample_z w j = real_of_int pz - real_of_int pl / 2 + real_of_int j * real_of_int pl / real_of_int pdimz"
    using c by (simp add: sample_z_def constructed_def even_c_div[OF assms(3)])
  have t: "internalTime w = 0" using c by (simp add: constructed_def)
  show ?thesis
    using yn(1,2) slice unfolding yn(3) x z t
    by (intro exI[of _ "real_of_int px - real_of_int pw / 2 + real_of_int i * real_of_int pw / real_of_int pdimx"]
        exI[of _ y]
        exI[of _ "real_of_int pz - real_of_int pl / 2 + real_of_int j * real_of_int pl / real_of_int pdimz"]
        exI[of _ n]) simp
qed


theorem vertex_positions_even_extent_witness:
  "Water_ctor 32767 (rng_const 0) 0 0 0 50 50 2 2 (1 / 10) 1 True True False = Inr example_water \<and>
   even (50::int) \<and> even (50::int) \<and> (0::int) \<le> 1 \<and> (1::int) < 2 \<and> (0::int) \<le> 0 \<and> (0::int) < 2 \<and>
   (\<exists>y n. H example_water 0 (- 25) 0 = Inr y \<and> N example_water 0 (- 25) 0 = Inr n \<and>
      take 6 (drop (6 * nat (1 * 2 + 0)) (vertices example_water)) = [0, y, - 25, v3x n, v3y n, v3z n])"
  using vertex_positions_even_extent[OF example_water_constructed, of 1 0]
  by (simp add: example_water_constructed)

lemma updateMesh_exact:
  assumes "waves_ok w" "0 < pDimZ w"
  shows "\<exists>w'. updateMesh w = Inr w' \<and> internalTime w' = internalTime w \<and>
           (\<forall>i j. 0 \<le> i \<longrightarrow> i < pDimX w \<longrightarrow> 0 \<le> j \<longrightarrow> j < pDimZ w \<longrightarrow>
              take 6 (drop (6 * nat (i * pDimZ w + j)) (vertices w')) = vertex_data w i j)"
proof -
  let ?w = "w\<lparr>vertices := [], indices := []\<rparr>"
  have ok: "waves_ok ?w" using assms by (simp add: waves_ok_def)
  have same: "?w\<lparr>vertices := []\<rparr> = ?w" by simp
  have vd: "vertex_data ?w = vertex_data w" by (rule vertex_data_cong) simp_all
  obtain v where v: "vertex_loops (?w\<lparr>vertices := []\<rparr>) = Inr (?w\<lparr>vertices := v\<rparr>)"
    "\<forall>i j. 0 \<le> i \<longrightarrow> i < pDimX ?w \<longrightarrow> 0 \<le> j \<longrightarrow> j < pDimZ ?w \<longrightarrow>
       take 6 (drop (6 * nat (i * pDimZ ?w + j)) v) = vertex_data ?w i j"
    using vertex_loops_exact[OF ok] assms(2) by auto
  let ?w' = "w\<lparr>vertices := v, indices := [], VBO_data := glBufferSubData (VBO_data w) v\<rparr>"
  have "updateMesh w = Inr ?w'"
    using v(1) unfolding same by (simp add: updateMesh_def)
  then show ?thesis using v(2) unfolding vd by (intro exI[of _ ?w']) simp
qed

lemma reachable_fields:
  assumes "reachable w0 w" "waves_ok w0"
  shows "pX w = pX w0 \<and> pZ w = pZ w0 \<and> pW w = pW w0 \<and> pL w = pL w0 \<and>
         pDimX w = pDimX w0 \<and> pDimZ w = pDimZ w0"
  using assms
proof (induction rule: reachable.induct)
  case reach_start
  then show ?case by simp
next
  case (reach_time w dT)
  then show ?case by (simp add: updateTime_def)
next
  case (reach_mesh w w')
  then have ok: "waves_ok w" using reachable_invariant by blast
  obtain vs where "updateMesh w = Inr (w\<lparr>vertices := vs, indices := [],
                                         VBO_data := glBufferSubData (VBO_data w) vs\<rparr>)"
    using updateMesh_ok[OF ok] by blast
  then have "w' = w\<lparr>vertices := vs, indices := [], VBO_data := glBufferSubData (VBO_data w) vs\<rparr>"
    using reach_mesh.hyps(2) by simp
  then show ?case using reach_mesh by simp
qed

text \<open>
  Property X2. For a patch of even width and length, in every state reached
  after construction: \<^verbatim>\<open>updateMesh\<close> returns, leaves the time \<open>t\<close> as it is, and
  writes for every grid sample \<open>(i, j)\<close> the position \<open>x = cx - W/2 + i * W/Nx\<close>,
  \<open>z = cz - L/2 + j * L/Nz\<close>, \<open>y = H(x, z, t)\<close> and the normal at \<open>(x, z)\<close> and \<open>t\<close>.
\<close>

theorem updateMesh_vertex_positions_even_extent:
  assumes "Water_ctor rmax g junk px pz pw pl pdimx pdimz maxa maxi True True anim = Inr w0"
    and "reachable w0 w"
    and "even pw" "even pl"
    and "0 \<le> i" "i < pdimx" "0 \<le> j" "j < pdimz"
  shows "\<exists>w' x y z n. updateMesh w = Inr w' \<and> internalTime w' = internalTime w \<and>
           x = real_of_int px - real_of_int pw / 2 + real_of_int i * real_of_int pw / real_of_int pdimx \<and>
           z = real_of_int pz - real_of_int pl / 2 + real_of_int j * real_of_int pl / real_of_int pdimz \<and>
           H w x z (internalTime w) = Inr y \<and> N w x z (internalTime w) = Inr n \<and>
           take 6 (drop (6 * nat (i * pdimz + j)) (vertices w')) = [x, y, z, v3x n, v3y n, v3z n]"
proof -
  have c: "constructed px pz pw pl pdimx pdimz maxa maxi anim w0"
    using assms(1) by (rule Water_ctor_result)
  have ok0: "waves_ok w0" using c by (rule constructed_waves_ok)
  have ok: "waves_ok w" using reachable_invariant[OF assms(2) ok0] by simp
  have f: "pX w = px" "pZ w = pz" "pW w = pw" "pL w = pl" "pDimX w = pdimx" "pDimZ w = pdimz"
    using reachable_fields[OF assms(2) ok0] c by (simp_all add: constructed_def)
  have pos: "0 < pDimZ w" using assms(7,8) f by simp
  obtain w' where w': "updateMesh w = Inr w'" "internalTime w' = internalTime w"
    "\<forall>i j. 0 \<le> i \<longrightarrow> i < pDimX w \<longrightarrow> 0 \<le> j \<longrightarrow> j < pDimZ w \<longrightarrow>
       take 6 (drop (6 * nat (i * pDimZ w + j)) (vertices w')) = vertex_data w i j"
    using updateMesh_exact[OF ok pos] by blast
  have slice: "take 6 (drop (6 * nat (i * pdimz + j)) (vertices w')) = vertex_data w i j"
    using w'(3) assms(5-8) unfolding f by blast
  obtain y n where yn: "H w (sample_x w i) (sample_z w j) (internalTime w) = Inr y"
    "N w (sample_x w i) (sample_z w j) (internalTime w) = Inr n"
    "vertex_data w i j = [sample_x w i, y, sample_z w j, v3x n, v3y n, v3z n]"
    using vertex_data_values[OF ok] by blast
  have x: "sample_x w i = real_of_int px - real_of_int pw / 2 + real_of_int i * real_of_int pw / real_of_int pdimx"
    using f by (simp add: sample_x_def even_c_div[OF assms(3)])
  have z: "sample_z w j = real_of_int pz - real_of_int pl / 2 + real_of_int j * real_of_int pl / real_of_int pdimz"
    using f by (simp add: sample_z_def even_c_div[OF assms(4)])
  show ?thesis
    using w'(1,2) yn(1,2) slice unfolding yn(3) x z
    by (intro exI[of _ w']
        exI[of _ "real_of_int px - real_of_int pw / 2 + real_of_int i * real_of_int pw / real_of_int pdimx"]
        exI[of _ y]
        exI[of _ "real_of_int pz - real_of_int pl / 2 + real_of_int j * real_of_int pl / real_of_int pdimz"]
        exI[of _ n]) simp
qed

theorem updateMesh_vertex_positions_even_extent_witness:
  "Water_ctor 32767 (rng_const 0) 0 0 0 50 50 2 2 (1 / 10) 1 True True False = Inr example_water \<and>
   reachable example_water (updateTime example_water (1 / 60)) \<and>
   even (50::int) \<and> even (50::int) \<and> (0::int) \<le> 1 \<and> (1::int) < 2 \<and> (0::int) \<le> 0 \<and> (0::int) < 2 \<and>
   (\<exists>w' y n. updateMesh (updateTime example_water (1 / 60)) = Inr w' \<and>
      internalTime w' = 1 / 60 \<and>
      H (updateTime example_water (1 / 60)) 0 (- 25) (1 / 60) = Inr y \<and>
      N (updateTime example_water (1 / 60)) 0 (- 25) (1 / 60) = Inr n \<and>
      take 6 (drop (6 * nat (1 * 2 + 0)) (vertices w')) = [0, y, - 25, v3x n, v3y n, v3z n])"
proof -
  have r: "reachable example_water (updateTime example_water (1 / 60))"
    by (intro reach_time reach_start)
  have t: "internalTime (updateTime example_water (1 / 60)) = 1 / 60"
    by (simp add: updateTime_def example_water_def)
  show ?thesis
    using updateMesh_vertex_positions_even_extent[OF example_water_constructed r, of 1 0] r
    by (simp add: example_water_constructed t)
qed

end
